theory Spec2Isabelle
  imports Main "HOL-Library.Word" "HOL-Library.Sublist"
begin

unbundle bit_operations_syntax

section \<open>JavaScript strings and values\<close>

text \<open>
  The development server (server.js) runs on Node.js. A request URL and every path derived
  from it is a JavaScript string whose characters come from the request line, one character
  per byte; it is modelled as a \<open>string\<close>. File contents are Buffers, modelled as lists of
  bytes. Text obtained by decoding a Buffer, and text handed to the response, is modelled
  as its list of Unicode code points.
\<close>

type_synonym byte = "8 word"

type_synonym codepoints = "nat list"

definition str :: "string \<Rightarrow> codepoints" where
  "str s = map of_char s"

text \<open>\<open>Array.prototype.join\<close> with a separator.\<close>

fun join_with :: "'a list \<Rightarrow> 'a list list \<Rightarrow> 'a list" where
  "join_with sep [] = []"
| "join_with sep [x] = x"
| "join_with sep (x # y # ys) = x @ sep @ join_with sep (y # ys)"

text \<open>\<open>String.prototype.split\<close> with a one-character separator: never the empty array.\<close>

fun split_on :: "'a \<Rightarrow> 'a list \<Rightarrow> 'a list list" where
  "split_on c [] = [[]]"
| "split_on c (x # xs) =
     (if x = c then [] # split_on c xs
      else (case split_on c xs of
              [] \<Rightarrow> [[x]]
            | s # ss \<Rightarrow> (x # s) # ss))"

text \<open>\<open>String.prototype.includes\<close>.\<close>

fun str_includes :: "'a list \<Rightarrow> 'a list \<Rightarrow> bool" where
  "str_includes [] sub = (sub = [])"
| "str_includes (x # xs) sub = (prefix sub (x # xs) \<or> str_includes xs sub)"

text \<open>\<open>String.prototype.endsWith\<close> with a one-character argument.\<close>

definition endsWith :: "'a list \<Rightarrow> 'a \<Rightarrow> bool" where
  "endsWith s c = (s \<noteq> [] \<and> last s = c)"

text \<open>
  \<open>String.prototype.replace\<close> with a string pattern replaces the first occurrence only.
  The replacement is not taken literally: \<open>$$\<close> stands for a dollar sign, \<open>$&\<close> for
  the matched text, \<open>$`\<close> and \<open>$'\<close> for the text before and after the match; with a
  string pattern there are no captures, so any other \<open>$\<close> stays as it is. The codes 36,
  38, 96 and 39 are those of the dollar sign, the ampersand, the backtick and the apostrophe.
\<close>

fun getSubstitution ::
  "codepoints \<Rightarrow> codepoints \<Rightarrow> codepoints \<Rightarrow> codepoints \<Rightarrow> codepoints" where
  "getSubstitution matched before after (c # d # rest) =
     (if c = 36 then
        (if d = 36 then 36 # getSubstitution matched before after rest
         else if d = 38 then matched @ getSubstitution matched before after rest
         else if d = 96 then before @ getSubstitution matched before after rest
         else if d = 39 then after @ getSubstitution matched before after rest
         else 36 # getSubstitution matched before after (d # rest))
      else c # getSubstitution matched before after (d # rest))"
| "getSubstitution matched before after r = r"

fun replace_at :: "codepoints \<Rightarrow> codepoints \<Rightarrow> codepoints \<Rightarrow> codepoints \<Rightarrow> codepoints" where
  "replace_at p r before [] = (if p = [] then before @ getSubstitution p before [] r else before)"
| "replace_at p r before (x # xs) =
     (if prefix p (x # xs)
      then before @ getSubstitution p before (drop (length p) (x # xs)) r
             @ drop (length p) (x # xs)
      else replace_at p r (before @ [x]) xs)"

definition js_replace :: "codepoints \<Rightarrow> codepoints \<Rightarrow> codepoints \<Rightarrow> codepoints" where
  "js_replace p r s = replace_at p r [] s"

text \<open>
  Replacing the first occurrence of a pattern by a list taken literally: what
  \<open>js_replace\<close> does when the replacement holds no dollar sign, and what it means for
  bytes.
\<close>

fun replace_first :: "'a list \<Rightarrow> 'a list \<Rightarrow> 'a list \<Rightarrow> 'a list" where
  "replace_first p r [] = (if p = [] then r else [])"
| "replace_first p r (x # xs) =
     (if prefix p (x # xs) then r @ drop (length p) (x # xs)
      else x # replace_first p r xs)"

text \<open>\<open>String.prototype.toLowerCase\<close> on characters below U+0100.\<close>

definition lower_char :: "char \<Rightarrow> char" where
  "lower_char c =
     (let n = (of_char c :: nat) in
      if (65 \<le> n \<and> n \<le> 90) \<or> (192 \<le> n \<and> n \<le> 222 \<and> n \<noteq> 215)
      then char_of (n + 32) else c)"

definition toLowerCase :: "string \<Rightarrow> string" where
  "toLowerCase s = map lower_char s"

text \<open>Decimal rendering of an integer, as \<open>Number.prototype.toString\<close> gives it.\<close>

definition digit :: "nat \<Rightarrow> char" where
  "digit n = ''0123456789'' ! n"

fun show_nat :: "nat \<Rightarrow> string" where
  "show_nat n =
     (if n < 10 then [digit n]
      else show_nat (n div 10) @ [digit (n mod 10)])"

declare show_nat.simps [simp del]

definition show_int :: "int \<Rightarrow> string" where
  "show_int i = (if i < 0 then CHR ''-'' # show_nat (nat (- i)) else show_nat (nat i))"

text \<open>
  The values \<open>config.port\<close> can hold: the number literal \<open>3000\<close>, or the string
  that \<open>process.env.PORT\<close> is.
\<close>

datatype jsval = JNum int | JStr string

fun truthy :: "jsval \<Rightarrow> bool" where
  "truthy (JNum n) = (n \<noteq> 0)"
| "truthy (JStr s) = (s \<noteq> [])"

fun js_toString :: "jsval \<Rightarrow> string" where
  "js_toString (JNum n) = show_int n"
| "js_toString (JStr s) = s"

text \<open>The operator \<open>+\<close>: addition on two numbers, concatenation when either side is a string.\<close>

fun js_plus :: "jsval \<Rightarrow> jsval \<Rightarrow> jsval" where
  "js_plus (JNum a) (JNum b) = JNum (a + b)"
| "js_plus a b = JStr (js_toString a @ js_toString b)"

text \<open>The operator \<open>||\<close> with an environment variable (a string, or undefined) on the left.\<close>

definition env_or :: "string option \<Rightarrow> jsval \<Rightarrow> jsval" where
  "env_or v d = (case v of None \<Rightarrow> d | Some s \<Rightarrow> (if truthy (JStr s) then JStr s else d))"

section \<open>The path module (POSIX)\<close>

text \<open>
  \<open>path.normalize\<close>, \<open>path.join\<close> and \<open>path.extname\<close> of Node.js, POSIX flavour.
  Node's \<open>normalizeString\<close> walks the characters and keeps the result as a string; here
  the same walk is over the segments between slashes, with the result kept as a list of
  segments: an empty segment or \<open>.\<close> is skipped, \<open>..\<close> removes the last segment unless
  there is none or it is \<open>..\<close> itself, in which case \<open>..\<close> is kept when
  \<open>allowAboveRoot\<close> holds and dropped otherwise.
\<close>

fun normalizeString :: "bool \<Rightarrow> string list \<Rightarrow> string list \<Rightarrow> string list" where
  "normalizeString allowAboveRoot res [] = res"
| "normalizeString allowAboveRoot res (s # ss) =
     (if s = [] \<or> s = ''.'' then normalizeString allowAboveRoot res ss
      else if s = ''..'' then
        (if res \<noteq> [] \<and> last res \<noteq> ''..''
         then normalizeString allowAboveRoot (butlast res) ss
         else if allowAboveRoot then normalizeString allowAboveRoot (res @ [''..'']) ss
         else normalizeString allowAboveRoot res ss)
      else normalizeString allowAboveRoot (res @ [s]) ss)"

definition normalize :: "string \<Rightarrow> string" where
  "normalize p =
     (if p = [] then ''.''
      else
        let isAbsolute = (hd p = CHR ''/'');
            trailingSeparator = (last p = CHR ''/'');
            res = join_with ''/'' (normalizeString (\<not> isAbsolute) [] (split_on CHR ''/'' p))
        in if res = [] then
             (if isAbsolute then ''/'' else if trailingSeparator then ''./'' else ''.'')
           else
             (if isAbsolute then ''/'' else []) @ res @ (if trailingSeparator then ''/'' else []))"

definition path_join :: "string list \<Rightarrow> string" where
  "path_join args =
     (let parts = filter (\<lambda>a. a \<noteq> []) args
      in if parts = [] then ''.'' else normalize (join_with ''/'' parts))"

text \<open>
  \<open>path.extname\<close>: the part of the last path component from its last dot on; empty when
  there is no dot, when the only dot is the first character of the component, and for the
  component \<open>..\<close>. Trailing slashes are ignored.
\<close>

definition basename_part :: "string \<Rightarrow> string" where
  "basename_part p =
     rev (takeWhile (\<lambda>c. c \<noteq> CHR ''/'') (dropWhile (\<lambda>c. c = CHR ''/'') (rev p)))"

definition extname :: "string \<Rightarrow> string" where
  "extname p =
     (let base = basename_part p;
          suffix = rev (takeWhile (\<lambda>c. c \<noteq> CHR ''.'') (rev base));
          stem = take (length base - length suffix - 1) base
      in if CHR ''.'' \<notin> set base \<or> stem = [] \<or> base = ''..'' then []
         else CHR ''.'' # suffix)"

section \<open>Configuration\<close>

record config =
  port :: jsval
  host :: string
  staticDir :: string

text \<open>
  The object \<open>config\<close>, from the process environment and the directory of server.js
  (\<open>__dirname\<close>). The watch patterns are not modelled.
\<close>

definition mk_config :: "(string \<Rightarrow> string option) \<Rightarrow> string \<Rightarrow> config" where
  "mk_config env dirname =
     \<lparr> port = env_or (env ''PORT'') (JNum 3000),
       host = js_toString (env_or (env ''HOST'') (JStr ''localhost'')),
       staticDir = path_join [dirname, ''src''] \<rparr>"

section \<open>MIME types\<close>

definition customMimeTypes :: "(string \<times> string) list" where
  "customMimeTypes =
     [ (''.html'', ''text/html; charset=utf-8''),
       (''.css'', ''text/css; charset=utf-8''),
       (''.js'', ''application/javascript; charset=utf-8''),
       (''.json'', ''application/json; charset=utf-8''),
       (''.png'', ''image/png''),
       (''.jpg'', ''image/jpeg''),
       (''.jpeg'', ''image/jpeg''),
       (''.gif'', ''image/gif''),
       (''.svg'', ''image/svg+xml; charset=utf-8''),
       (''.ico'', ''image/x-icon''),
       (''.woff'', ''font/woff''),
       (''.woff2'', ''font/woff2''),
       (''.ttf'', ''font/ttf''),
       (''.eot'', ''application/vnd.ms-fontobject'') ]"

text \<open>
  \<open>a || d\<close> where \<open>a\<close> is a string or a falsy value (undefined, false) and \<open>d\<close> a
  string: \<open>None\<close> and the empty string are falsy.
\<close>

definition or_str :: "string option \<Rightarrow> string \<Rightarrow> string" where
  "or_str a d = (case a of Some s \<Rightarrow> (if s \<noteq> [] then s else d) | None \<Rightarrow> d)"

text \<open>
  \<open>getMimeType\<close>. The lookup of the mime-types package is a parameter: it returns a
  type, or \<open>false\<close> (here \<open>None\<close>) for a path it does not know. The extension is empty
  or starts with a dot, so \<open>customMimeTypes[ext]\<close> never reaches a property inherited
  from \<open>Object.prototype\<close>: it is the lookup in the table.
\<close>

definition getMimeType :: "(string \<Rightarrow> string option) \<Rightarrow> string \<Rightarrow> string" where
  "getMimeType lookup filePath =
     (let ext = toLowerCase (extname filePath)
      in or_str (map_of customMimeTypes ext)
           (or_str (lookup filePath) ''application/octet-stream''))"

section \<open>The live-reload script\<close>

text \<open>
  The template literal \<open>liveReloadScript\<close>: its lines before and after the one
  interpolation, \<open>${config.port + 1}\<close>.
\<close>

definition liveReloadScript_head :: "string list" where
  \<open>liveReloadScript_head =
   [ ''''
   , ''<script>''
   , ''(function() {''
   , ''    'use strict';''
   , ''    ''
   , ''    let reconnectAttempts = 0;''
   , ''    const maxReconnectAttempts = 10;''
   , ''    const reconnectInterval = 2000;''
   , ''    ''
   , ''    function connect() {''
   , ''        const ws = new WebSocket('ws://localhost:''
   ]\<close>

definition liveReloadScript_tail :: "string list" where
  \<open>liveReloadScript_tail =
   [ ''');''
   , ''        ''
   , ''        ws.onopen = function() {''
   , ''            console.log('[Live Reload] Connected to server');''
   , ''            reconnectAttempts = 0;''
   , ''        };''
   , ''        ''
   , ''        ws.onmessage = function(event) {''
   , ''            if (event.data === 'reload') {''
   , ''                console.log('[Live Reload] Reloading page...');''
   , ''                window.location.reload();''
   , ''            }''
   , ''        };''
   , ''        ''
   , ''        ws.onclose = function() {''
   , ''            console.log('[Live Reload] Connection closed');''
   , ''            ''
   , ''            if (reconnectAttempts < maxReconnectAttempts) {''
   , ''                setTimeout(() => {''
   , ''                    reconnectAttempts++;''
   , ''                    console.log('[Live Reload] Attempting to reconnect... (' + reconnectAttempts + '/' + maxReconnectAttempts + ')');''
   , ''                    connect();''
   , ''                }, reconnectInterval);''
   , ''            } else {''
   , ''                console.log('[Live Reload] Max reconnection attempts reached');''
   , ''            }''
   , ''        };''
   , ''        ''
   , ''        ws.onerror = function(error) {''
   , ''            console.error('[Live Reload] WebSocket error:', error);''
   , ''        };''
   , ''    }''
   , ''    ''
   , ''    // Start connection when DOM is ready''
   , ''    if (document.readyState === 'loading') {''
   , ''        document.addEventListener('DOMContentLoaded', connect);''
   , ''    } else {''
   , ''        connect();''
   , ''    }''
   , ''})();''
   , ''</script>''
   , ''''
   ]\<close>

definition lines :: "string list \<Rightarrow> string" where
  "lines ls = join_with [CHR 0x0A] ls"

definition liveReloadScript :: "config \<Rightarrow> string" where
  "liveReloadScript cfg =
     lines liveReloadScript_head @ js_toString (js_plus (port cfg) (JNum 1))
       @ lines liveReloadScript_tail"

section \<open>The WebSocket server for live reload\<close>

record ws_server =
  ws_port :: jsval

text \<open>
  A connection is a socket object, known by its identity; its \<open>readyState\<close> (1 is OPEN)
  changes as the ws package drives it, so it lives in a store indexed by identity. The
  state of the module: the server \<open>wsServer\<close> (undefined until it is created), the array
  \<open>wsConnections\<close> of references, the store, and, as the trace of the effects, the
  messages sent and the lines logged.
\<close>

record server_state =
  wsServer :: "ws_server option"
  wsConnections :: "nat list"
  readyState :: "nat \<Rightarrow> nat"
  sent :: "(nat \<times> string) list"
  logged :: "string list"

text \<open>
  \<open>createWebSocketServer\<close>. Whether \<open>require('ws')\<close> and the constructor succeed for
  a given port belongs to the ws package and the operating system: it is the parameter
  \<open>listens\<close>. On failure the exception is caught and \<open>wsServer\<close> stays as it was.
\<close>

definition createWebSocketServer ::
  "(jsval \<Rightarrow> bool) \<Rightarrow> config \<Rightarrow> server_state \<Rightarrow> server_state" where
  \<open>createWebSocketServer listens cfg st =
     (if listens (js_plus (port cfg) (JNum 1))
      then st\<lparr> wsServer := Some \<lparr> ws_port = js_plus (port cfg) (JNum 1) \<rparr>,
               logged := logged st @
                 [''[Live Reload] WebSocket server started on port ''
                    @ js_toString (js_plus (port cfg) (JNum 1))] \<rparr>
      else st\<lparr> logged := logged st @
                 [''[Live Reload] WebSocket not available, live reload disabled'',
                  ''Run "npm install ws" to enable live reload functionality''] \<rparr>)\<close>

text \<open>The handlers of the events \<open>connection\<close> and \<open>close\<close> of a socket \<open>ws\<close>.\<close>

definition on_connection :: "nat \<Rightarrow> server_state \<Rightarrow> server_state" where
  "on_connection ws st =
     (let conns = wsConnections st @ [ws]
      in st\<lparr> wsConnections := conns,
              logged := logged st @
                [''[Live Reload] Client connected ('' @ show_nat (length conns) @ '' total)''] \<rparr>)"

definition on_close :: "nat \<Rightarrow> server_state \<Rightarrow> server_state" where
  "on_close ws st =
     (let conns = filter (\<lambda>conn. conn \<noteq> ws) (wsConnections st)
      in st\<lparr> wsConnections := conns,
              logged := logged st @
                [''[Live Reload] Client disconnected ('' @ show_nat (length conns)
                   @ '' remaining)''] \<rparr>)"

text \<open>
  The loop of \<open>broadcastReload\<close>: \<open>forEach\<close> over the array, in order, reading each
  socket's \<open>readyState\<close> and sending to the open ones.
\<close>

fun forEach_send ::
  "(nat \<Rightarrow> nat) \<Rightarrow> nat list \<Rightarrow> (nat \<times> string) list \<Rightarrow> (nat \<times> string) list" where
  "forEach_send rs [] out = out"
| "forEach_send rs (ws # rest) out =
     forEach_send rs rest (if rs ws = 1 then out @ [(ws, ''reload'')] else out)"

definition broadcastReload :: "server_state \<Rightarrow> server_state" where
  "broadcastReload st =
     (if length (wsConnections st) > 0
      then st\<lparr> sent := forEach_send (readyState st) (wsConnections st) (sent st),
               logged := logged st @
                 [''[Live Reload] Reload signal sent to ''
                    @ show_nat (length (wsConnections st)) @ '' client(s)''] \<rparr>
      else st)"

section \<open>The file watcher\<close>

text \<open>
  The timers of the event loop: \<open>setTimeout\<close> registers a callback with the time it is
  due and returns a fresh handle, \<open>clearTimeout\<close> removes the timer with the given handle
  (and does nothing for undefined or for a handle whose timer has run). Time is counted in
  milliseconds. The only callback registered by the watcher is the one of
  \<open>scheduleReload\<close>, so a timer stores that callback's two captured variables.
\<close>

record timer =
  handle :: nat
  due :: nat
  cb_eventType :: string
  cb_filePath :: string

record watcher_state =
  server :: server_state
  timers :: "timer list"
  next_handle :: nat
  reloadTimer :: "nat option"
  broadcasts :: "nat list"

definition clearTimeout :: "nat option \<Rightarrow> watcher_state \<Rightarrow> watcher_state" where
  "clearTimeout h st = st\<lparr> timers := filter (\<lambda>t. Some (handle t) \<noteq> h) (timers st) \<rparr>"

definition setTimeout :: "nat \<Rightarrow> nat \<Rightarrow> string \<Rightarrow> string \<Rightarrow> watcher_state \<Rightarrow> nat \<times> watcher_state" where
  "setTimeout now delay ev p st =
     (next_handle st,
      st\<lparr> timers := timers st @ [\<lparr> handle = next_handle st, due = now + delay,
                                     cb_eventType = ev, cb_filePath = p \<rparr>],
          next_handle := Suc (next_handle st) \<rparr>)"

text \<open>\<open>scheduleReload\<close>, called at time \<open>now\<close>.\<close>

definition scheduleReload :: "nat \<Rightarrow> string \<Rightarrow> string \<Rightarrow> watcher_state \<Rightarrow> watcher_state" where
  "scheduleReload now ev p st =
     (let st1 = clearTimeout (reloadTimer st) st;
          (h, st2) = setTimeout now 100 ev p st1
      in st2\<lparr> reloadTimer := Some h \<rparr>)"

text \<open>
  The timer's callback: a log line, then \<open>broadcastReload\<close>. The trace \<open>broadcasts\<close>
  records the time of each call of \<open>broadcastReload\<close>. (The logged path is the watcher's
  path as it is; the source prints it relative to the working directory.)
\<close>

definition run_callback :: "timer \<Rightarrow> watcher_state \<Rightarrow> watcher_state" where
  "run_callback t st =
     st\<lparr> server := broadcastReload
            ((server st)\<lparr> logged := logged (server st)
               @ [''[File Watcher] '' @ cb_eventType t @ '': '' @ cb_filePath t] \<rparr>),
         broadcasts := broadcasts st @ [due t] \<rparr>"

text \<open>
  The event loop reaching time \<open>now\<close>: every timer due by then runs, earliest first, and
  is removed.
\<close>

definition advance :: "nat \<Rightarrow> watcher_state \<Rightarrow> watcher_state" where
  "advance now st =
     fold run_callback (sort_key due (filter (\<lambda>t. due t \<le> now) (timers st)))
       (st\<lparr> timers := filter (\<lambda>t. \<not> due t \<le> now) (timers st) \<rparr>)"

text \<open>The watcher's events and their handlers, as registered with \<open>watcher.on\<close>.\<close>

datatype watch_kind = Change | Add | Unlink

record watch_event =
  arrival :: nat
  kind :: watch_kind
  path :: string

fun kind_label :: "watch_kind \<Rightarrow> string" where
  "kind_label Change = ''Changed''"
| "kind_label Add = ''Added''"
| "kind_label Unlink = ''Removed''"

definition on_watch_event :: "watch_event \<Rightarrow> watcher_state \<Rightarrow> watcher_state" where
  "on_watch_event e st = scheduleReload (arrival e) (kind_label (kind e)) (path e) (advance (arrival e) st)"

definition run_events :: "watch_event list \<Rightarrow> watcher_state \<Rightarrow> watcher_state" where
  "run_events es st = fold on_watch_event es st"

text \<open>
  The watcher right after \<open>setupFileWatcher\<close>: no timer, \<open>reloadTimer\<close> undefined. (The
  second logged line is followed in the source by the watch patterns, which are not
  modelled.)
\<close>

definition setupFileWatcher :: "server_state \<Rightarrow> watcher_state" where
  "setupFileWatcher sv =
     \<lparr> server = sv\<lparr> logged := logged sv @ [''[File Watcher] Setting up file watcher...'',
                                            ''[File Watcher] Watching for changes in:''] \<rparr>,
       timers = [], next_handle = 0, reloadTimer = None, broadcasts = [] \<rparr>"

text \<open>Consecutive events, each arriving before the previous one's 100 ms have passed.\<close>

fun rapid :: "nat \<Rightarrow> watch_event list \<Rightarrow> bool" where
  "rapid t [] = True"
| "rapid t (e # es) = (t \<le> arrival e \<and> arrival e < t + 100 \<and> rapid (arrival e) es)"

section \<open>The HTTP server\<close>

text \<open>
  \<open>Buffer.prototype.toString\<close> decodes UTF-8: a byte sequence that is not well formed
  is replaced by U+FFFD, the byte that broke it is read again. \<open>Buffer.from\<close> of a string
  encodes UTF-8; a lone surrogate is encoded as U+FFFD.
\<close>

datatype lead = Emit nat | Expect nat nat nat nat

definition utf8_lead :: "byte \<Rightarrow> lead" where
  "utf8_lead b =
     (let n = unat b in
      if n \<le> 0x7F then Emit n
      else if 0xC2 \<le> n \<and> n \<le> 0xDF then Expect 1 (n mod 32) 0x80 0xBF
      else if 0xE0 \<le> n \<and> n \<le> 0xEF then
        Expect 2 (n mod 16) (if n = 0xE0 then 0xA0 else 0x80) (if n = 0xED then 0x9F else 0xBF)
      else if 0xF0 \<le> n \<and> n \<le> 0xF4 then
        Expect 3 (n mod 8) (if n = 0xF0 then 0x90 else 0x80) (if n = 0xF4 then 0x8F else 0xBF)
      else Emit 0xFFFD)"

fun utf8_decode_from :: "(nat \<times> nat \<times> nat \<times> nat) option \<Rightarrow> byte list \<Rightarrow> codepoints" where
  "utf8_decode_from None [] = []"
| "utf8_decode_from (Some pending) [] = [0xFFFD]"
| "utf8_decode_from None (b # bs) =
     (case utf8_lead b of
        Emit c \<Rightarrow> c # utf8_decode_from None bs
      | Expect n cp lo hi \<Rightarrow> utf8_decode_from (Some (n, cp, lo, hi)) bs)"
| "utf8_decode_from (Some (n, cp, lo, hi)) (b # bs) =
     (if lo \<le> unat b \<and> unat b \<le> hi then
        (if n = 1 then (cp * 64 + unat b mod 64) # utf8_decode_from None bs
         else utf8_decode_from (Some (n - 1, cp * 64 + unat b mod 64, 0x80, 0xBF)) bs)
      else 0xFFFD #
        (case utf8_lead b of
           Emit c \<Rightarrow> c # utf8_decode_from None bs
         | Expect n' cp' lo' hi' \<Rightarrow> utf8_decode_from (Some (n', cp', lo', hi')) bs))"

definition toString :: "byte list \<Rightarrow> codepoints" where
  "toString data = utf8_decode_from None data"

definition utf8_encode_cp :: "nat \<Rightarrow> byte list" where
  "utf8_encode_cp cp =
     (if cp < 0x80 then [of_nat cp]
      else if cp < 0x800 then [of_nat (0xC0 + cp div 64), of_nat (0x80 + cp mod 64)]
      else if (0xD800 \<le> cp \<and> cp \<le> 0xDFFF) \<or> 0x10FFFF < cp then [0xEF, 0xBF, 0xBD]
      else if cp < 0x10000 then
        [of_nat (0xE0 + cp div 4096), of_nat (0x80 + cp div 64 mod 64), of_nat (0x80 + cp mod 64)]
      else
        [of_nat (0xF0 + cp div 262144), of_nat (0x80 + cp div 4096 mod 64),
         of_nat (0x80 + cp div 64 mod 64), of_nat (0x80 + cp mod 64)])"

definition Buffer_from :: "codepoints \<Rightarrow> byte list" where
  "Buffer_from t = concat (map utf8_encode_cp t)"

text \<open>A response: what \<open>writeHead\<close> and \<open>end\<close> are given.\<close>

datatype hval = HStr string | HNum nat

datatype body = BodyString codepoints | BodyBuffer "byte list"

record response =
  status :: nat
  headers :: "(string \<times> hval) list"
  body :: body

text \<open>The body of the 404 page: a template literal with \<open>${filePath}\<close> in it.\<close>

definition notFound_head :: "string list" where
  \<open>notFound_head =
   [ ''''
   , ''                <!DOCTYPE html>''
   , ''                <html lang="en">''
   , ''                <head>''
   , ''                    <meta charset="UTF-8">''
   , ''                    <meta name="viewport" content="width=device-width, initial-scale=1.0">''
   , ''                    <title>404 - File Not Found</title>''
   , ''                    <style>''
   , ''                        body { ''
   , ''                            font-family: -apple-system, BlinkMacSystemFont, 'Segoe UI', Roboto, sans-serif; ''
   , ''                            text-align: center; ''
   , ''                            padding: 50px; ''
   , ''                            color: #333; ''
   , ''                        }''
   , ''                        h1 { color: #e74c3c; }''
   , ''                        .back-link { ''
   , ''                            display: inline-block; ''
   , ''                            margin-top: 20px; ''
   , ''                            padding: 10px 20px; ''
   , ''                            background: #4a90e2; ''
   , ''                            color: white; ''
   , ''                            text-decoration: none; ''
   , ''                            border-radius: 5px; ''
   , ''                        }''
   , ''                    </style>''
   , ''                </head>''
   , ''                <body>''
   , ''                    <h1>404 - File Not Found</h1>''
   , ''                    <p>The requested file <code>''
   ]\<close>

definition notFound_mid :: "string list" where
  \<open>notFound_mid =
   [ ''</code> could not be found.</p>''
   , ''                    <a href="/" class="back-link">''
   ]\<close>

definition notFound_tail :: "string list" where
  \<open>notFound_tail =
   [ '' Back to Home</a>''
   , ''                </body>''
   , ''                </html>''
   , ''            ''
   ]\<close>

definition notFoundPage :: "string \<Rightarrow> codepoints" where
  "notFoundPage filePath =
     str (lines notFound_head) @ str filePath @ str (lines notFound_mid)
       @ [0x201A, 0xDC, 0xEA] @ str (lines notFound_tail)"

text \<open>
  \<open>serveFile\<close>. The file system is the parameter \<open>readFile\<close>: the content of a path, or
  \<open>None\<close> when \<open>fs.readFile\<close> reports an error. The result is the response written by
  the callback.
\<close>

definition serveFile ::
  "config \<Rightarrow> (string \<Rightarrow> string option) \<Rightarrow> server_state \<Rightarrow> (string \<Rightarrow> byte list option)
     \<Rightarrow> string \<Rightarrow> response" where
  "serveFile cfg lookup st readFile filePath =
     (let fullPath = path_join [staticDir cfg, filePath] in
      case readFile fullPath of
        None \<Rightarrow>
          \<lparr> status = 404,
            headers = [(''Content-Type'', HStr ''text/html; charset=utf-8'')],
            body = BodyString (notFoundPage filePath) \<rparr>
      | Some data \<Rightarrow>
          let mimeType = getMimeType lookup filePath;
              headers0 = [(''Content-Type'', HStr mimeType),
                          (''Cache-Control'', HStr ''no-cache, no-store, must-revalidate''),
                          (''Pragma'', HStr ''no-cache''),
                          (''Expires'', HStr ''0'')]
          in if str_includes mimeType ''text/html'' \<and> wsServer st \<noteq> None then
               let htmlContent = toString data;
                   modifiedHtml = js_replace (str ''</body>'')
                                    (str (liveReloadScript cfg) @ str ''</body>'') htmlContent;
                   data' = Buffer_from modifiedHtml
               in \<lparr> status = 200,
                    headers = headers0 @ [(''Content-Length'', HNum (length data'))],
                    body = BodyBuffer data' \<rparr>
             else \<lparr> status = 200, headers = headers0, body = BodyBuffer data \<rparr>)"

text \<open>
  The request listener of \<open>createHttpServer\<close>: first the path it hands to \<open>serveFile\<close>,
  then the listener itself, which returns the response and the line it logs (without the
  time of day).
\<close>

fun strip_parents :: "string \<Rightarrow> string" where
  "strip_parents (a # b # c # rest) =
     (if a = CHR ''.'' \<and> b = CHR ''.'' \<and> (c = CHR ''/'' \<or> c = CHR 0x5C)
      then strip_parents rest else a # b # c # rest)"
| "strip_parents s = s"

definition strip_slash :: "string \<Rightarrow> string" where
  "strip_slash s = (case s of [] \<Rightarrow> [] | c # rest \<Rightarrow> (if c = CHR ''/'' then rest else s))"

definition resolve :: "string \<Rightarrow> string" where
  "resolve url =
     (let urlPath = hd (split_on CHR ''?'' url);
          urlPath = strip_parents (normalize urlPath);
          urlPath = (if urlPath = ''/'' \<or> endsWith urlPath CHR ''/''
                     then path_join [urlPath, ''index.html''] else urlPath)
      in strip_slash urlPath)"

record request =
  req_method :: string
  url :: string

definition handle_request ::
  "config \<Rightarrow> (string \<Rightarrow> string option) \<Rightarrow> server_state \<Rightarrow> (string \<Rightarrow> byte list option)
     \<Rightarrow> request \<Rightarrow> response \<times> string" where
  "handle_request cfg lookup st readFile req =
     (serveFile cfg lookup st readFile (resolve (url req)),
      req_method req @ '' '' @ url req)"

text \<open>
  What \<open>http.ServerResponse\<close> of Node.js sends to an HTTP/1.1 client for the arguments
  the listener gives \<open>writeHead\<close> and \<open>end\<close>. The response to a \<open>HEAD\<close> request,
  and one with status 204, 304 or 1xx, has no body; a response with a body and without
  \<open>Content-Length\<close> is sent chunked. The headers that Node adds to every response
  (\<open>Date\<close>, \<open>Connection\<close>, \<open>Keep-Alive\<close>) are left out, and the body is the message
  body before the transfer coding. A string given to \<open>end\<close> is sent as UTF-8.
\<close>

record wire_response =
  wire_status :: nat
  wire_headers :: "(string \<times> hval) list"
  wire_body :: "byte list"

definition hasBody :: "string \<Rightarrow> nat \<Rightarrow> bool" where
  "hasBody m code \<longleftrightarrow>
     m \<noteq> ''HEAD'' \<and> code \<noteq> 204 \<and> code \<noteq> 304 \<and> \<not> (100 \<le> code \<and> code \<le> 199)"

fun body_bytes :: "body \<Rightarrow> byte list" where
  "body_bytes (BodyString t) = Buffer_from t"
| "body_bytes (BodyBuffer b) = b"

definition transmit :: "string \<Rightarrow> response \<Rightarrow> wire_response" where
  "transmit m r =
     \<lparr> wire_status = status r,
       wire_headers = headers r @
         (if hasBody m (status r) \<and> map_of (headers r) ''Content-Length'' = None
          then [(''Transfer-Encoding'', HStr ''chunked'')] else []),
       wire_body = (if hasBody m (status r) then body_bytes (body r) else []) \<rparr>"

text \<open>The server as a client sees it: the listener, then Node's sending of its response.\<close>

definition respond ::
  "config \<Rightarrow> (string \<Rightarrow> string option) \<Rightarrow> server_state \<Rightarrow> (string \<Rightarrow> byte list option)
     \<Rightarrow> request \<Rightarrow> wire_response" where
  "respond cfg lookup st readFile req =
     transmit (req_method req) (fst (handle_request cfg lookup st readFile req))"

section \<open>Sample inputs\<close>

text \<open>Concrete environments, states and file systems at which the results are instantiated.\<close>

definition no_env :: "string \<Rightarrow> string option" where
  "no_env name = None"

definition port_3001_env :: "string \<Rightarrow> string option" where
  "port_3001_env name = (if name = ''PORT'' then Some ''3001'' else None)"

definition always_listens :: "jsval \<Rightarrow> bool" where
  "always_listens p = True"

definition no_lookup :: "string \<Rightarrow> string option" where
  "no_lookup p = None"

definition no_files :: "string \<Rightarrow> byte list option" where
  "no_files p = None"

definition sample_config :: config where
  "sample_config = mk_config no_env ''/srv/app''"

definition initial_state :: server_state where
  "initial_state =
     \<lparr> wsServer = None, wsConnections = [], readyState = (\<lambda>ws. 0), sent = [], logged = [] \<rparr>"

definition three_clients :: server_state where
  "three_clients =
     \<lparr> wsServer = Some \<lparr> ws_port = JNum 3001 \<rparr>, wsConnections = [1, 2, 3],
       readyState = (\<lambda>ws. if ws = 2 then 3 else 1), sent = [], logged = [] \<rparr>"

text \<open>
  The bytes of the closing body tag and of the script, as they travel in a response, and
  a file system with four small files under \<open>/srv/app/src\<close>.
\<close>

definition closing_tag :: "byte list" where
  "closing_tag = Buffer_from (str ''</body>'')"

definition script_bytes :: "config \<Rightarrow> byte list" where
  "script_bytes cfg = Buffer_from (str (liveReloadScript cfg))"

definition ascii_bytes :: "string \<Rightarrow> byte list" where
  "ascii_bytes s = map (\<lambda>c. of_nat (of_char c)) s"

definition sample_files :: "string \<Rightarrow> byte list option" where
  "sample_files p =
     (if p = ''/srv/app/src/plain.html'' then Some (ascii_bytes ''<p>hi</p>'')
      else if p = ''/srv/app/src/twice.html'' then Some (ascii_bytes ''<body></body></body>'')
      else if p = ''/srv/app/src/latin1.html'' then Some (0xE9 # ascii_bytes ''</body>'')
      else if p = ''/srv/app/src/site.css'' then Some (ascii_bytes ''p{}'')
      else None)"

text \<open>
  Notions used to state the results. A segment is plain when normalisation keeps it as it
  is: not empty, not \<open>.\<close>, not \<open>..\<close>, and without a slash.
\<close>

definition plain :: "string \<Rightarrow> bool" where
  "plain s \<longleftrightarrow> s \<noteq> [] \<and> s \<noteq> ''.'' \<and> s \<noteq> ''..'' \<and> CHR ''/'' \<notin> set s"

text \<open>
  The arrival time of the last event of a burst that follows an event at time \<open>t\<close>, and the
  state of the watcher in which exactly one timer is pending: the one \<open>reloadTimer\<close>
  refers to, due 100 ms after \<open>t\<close>.
\<close>

fun last_arrival :: "nat \<Rightarrow> watch_event list \<Rightarrow> nat" where
  "last_arrival t [] = t"
| "last_arrival t (e # es) = last_arrival (arrival e) es"

definition one_pending :: "watcher_state \<Rightarrow> nat \<Rightarrow> bool" where
  "one_pending st t \<longleftrightarrow>
     (\<exists>tm. timers st = [tm] \<and> reloadTimer st = Some (handle tm) \<and> due tm = t + 100)"

text \<open>A burst of three watcher events, 40 ms and 90 ms apart.\<close>

definition burst_first :: watch_event where
  "burst_first = \<lparr> arrival = 0, kind = Change, path = ''src/index.html'' \<rparr>"

definition burst_rest :: "watch_event list" where
  "burst_rest = [\<lparr> arrival = 40, kind = Add, path = ''src/new.css'' \<rparr>,
                 \<lparr> arrival = 130, kind = Unlink, path = ''src/old.js'' \<rparr>]"

section \<open>Properties of the change notifier\<close>

lemma forEach_send_eq:
  "forEach_send rs conns out =
     out @ map (\<lambda>ws. (ws, ''reload'')) (filter (\<lambda>ws. rs ws = 1) conns)"
  by (induction conns arbitrary: out) simp_all

text \<open>
  Claim C3. \<open>broadcastReload\<close> sends the token \<open>reload\<close> to exactly the connections of
  \<open>wsConnections\<close> whose \<open>readyState\<close> is 1 (OPEN), in the order of the array, and sends
  nothing else; it leaves the connection array, the sockets' states and the server
  untouched; with no connection it changes nothing at all. The function is total: there
  is no path on which it throws.
\<close>

theorem broadcastReload_frame:
  "sent (broadcastReload st) =
     sent st @ map (\<lambda>ws. (ws, ''reload''))
                 (filter (\<lambda>ws. readyState st ws = 1) (wsConnections st))
   \<and> wsConnections (broadcastReload st) = wsConnections st
   \<and> readyState (broadcastReload st) = readyState st
   \<and> wsServer (broadcastReload st) = wsServer st
   \<and> (wsConnections st = [] \<longrightarrow> broadcastReload st = st)"
  by (simp add: broadcastReload_def forEach_send_eq)

theorem broadcastReload_frame_witness:
  "sent (broadcastReload three_clients) = [(1, ''reload''), (3, ''reload'')]
   \<and> wsConnections (broadcastReload three_clients) = [1, 2, 3]
   \<and> wsConnections initial_state = []
   \<and> broadcastReload initial_state = initial_state"
  using broadcastReload_frame [of three_clients] broadcastReload_frame [of initial_state]
  by (simp add: three_clients_def initial_state_def)

section \<open>Properties of the configuration\<close>

lemma ws_port_default:
  "wsServer (createWebSocketServer always_listens (mk_config no_env dir) st)
     = Some \<lparr> ws_port = JNum 3001 \<rparr>"
  by (simp add: createWebSocketServer_def always_listens_def mk_config_def no_env_def
      env_or_def)

lemma script_port_is_ws_port:
  "listens (js_plus (port cfg) (JNum 1)) \<Longrightarrow>
   wsServer (createWebSocketServer listens cfg st)
     = Some \<lparr> ws_port = js_plus (port cfg) (JNum 1) \<rparr>
   \<and> liveReloadScript cfg =
       lines liveReloadScript_head @ js_toString (js_plus (port cfg) (JNum 1))
         @ lines liveReloadScript_tail"
  by (simp add: liveReloadScript_def createWebSocketServer_def)

text \<open>
  Claim C5. With \<open>PORT=3001\<close> in the environment, \<open>config.port\<close> is the string
  \<open>"3001"\<close> and \<open>config.port + 1\<close> is the string \<open>"30011"\<close>: the push channel
  listens on 30011, not on 3002.
\<close>

theorem ws_port_with_PORT_3001:
  "port (mk_config port_3001_env ''/srv/app'') = JStr ''3001''
   \<and> wsServer (createWebSocketServer always_listens (mk_config port_3001_env ''/srv/app'')
                 initial_state)
       = Some \<lparr> ws_port = JStr ''30011'' \<rparr>"
  by code_simp

section \<open>Properties of the MIME classifier\<close>

lemma custom_key_lower:
  assumes "map_of customMimeTypes e = Some t"
  shows "toLowerCase e = e \<and> t \<noteq> []"
proof -
  from assms have "(e, t) \<in> set customMimeTypes" by (rule map_of_SomeD)
  then show ?thesis
    unfolding customMimeTypes_def toLowerCase_def lower_char_def
    by (auto simp: Let_def)
qed

text \<open>
  Claim C7. When the extension of the path is a key of \<open>customMimeTypes\<close>,
  \<open>getMimeType\<close> returns the table's entry. When the extension, in lower case as the
  function looks it up, is not in the table and the library lookup finds nothing, the
  result is \<open>application/octet-stream\<close>. The function is total, and its result is
  never the empty string.
\<close>

theorem getMimeType_table_or_fallback:
  "(map_of customMimeTypes (extname p) = Some t \<longrightarrow> getMimeType lookup p = t)
   \<and> (map_of customMimeTypes (toLowerCase (extname p)) = None \<and> lookup p = None
        \<longrightarrow> getMimeType lookup p = ''application/octet-stream'')
   \<and> getMimeType lookup p \<noteq> []"
proof (intro conjI impI)
  assume a: "map_of customMimeTypes (extname p) = Some t"
  from custom_key_lower [OF a] a show "getMimeType lookup p = t"
    by (simp add: getMimeType_def or_str_def)
next
  assume "map_of customMimeTypes (toLowerCase (extname p)) = None \<and> lookup p = None"
  then show "getMimeType lookup p = ''application/octet-stream''"
    by (simp add: getMimeType_def or_str_def)
next
  show "getMimeType lookup p \<noteq> []"
    by (auto simp: getMimeType_def or_str_def Let_def split: option.splits)
qed

theorem getMimeType_table_or_fallback_witness:
  "map_of customMimeTypes (extname ''css/site.css'') = Some ''text/css; charset=utf-8''
   \<and> getMimeType no_lookup ''css/site.css'' = ''text/css; charset=utf-8''
   \<and> map_of customMimeTypes (toLowerCase (extname ''data.xyz'')) = None
   \<and> no_lookup ''data.xyz'' = None
   \<and> getMimeType no_lookup ''data.xyz'' = ''application/octet-stream''"
proof -
  have h1: "map_of customMimeTypes (extname ''css/site.css'') = Some ''text/css; charset=utf-8''"
    by code_simp
  have h2: "map_of customMimeTypes (toLowerCase (extname ''data.xyz'')) = None"
    by code_simp
  have h3: "no_lookup ''data.xyz'' = None"
    by (simp add: no_lookup_def)
  show ?thesis
    using h1 h2 h3
      getMimeType_table_or_fallback [of "''css/site.css''" "''text/css; charset=utf-8''" no_lookup]
      getMimeType_table_or_fallback [of "''data.xyz''" _ no_lookup]
    by simp
qed

section \<open>Properties of the request listener\<close>

text \<open>
  Claim C9. For two requests with the same URL, the listener gives \<open>writeHead\<close> and
  \<open>end\<close> the same arguments (status, headers and body) whatever their methods: the
  listener uses the method in the logged line only.
\<close>

theorem listener_arguments_independent_of_method:
  "url r1 = url r2 \<Longrightarrow>
   fst (handle_request cfg lookup st readFile r1) = fst (handle_request cfg lookup st readFile r2)
   \<and> snd (handle_request cfg lookup st readFile r1) = req_method r1 @ '' '' @ url r1"
  by (simp add: handle_request_def)

theorem listener_arguments_independent_of_method_witness:
  "url \<lparr> req_method = ''GET'', url = ''/index.html'' \<rparr> = url \<lparr> req_method = ''DELETE'', url = ''/index.html'' \<rparr>
   \<and> fst (handle_request sample_config no_lookup initial_state no_files
            \<lparr> req_method = ''GET'', url = ''/index.html'' \<rparr>)
     = fst (handle_request sample_config no_lookup initial_state no_files
            \<lparr> req_method = ''DELETE'', url = ''/index.html'' \<rparr>)"
  using listener_arguments_independent_of_method
    [of "\<lparr> req_method = ''GET'', url = ''/index.html'' \<rparr>"
        "\<lparr> req_method = ''DELETE'', url = ''/index.html'' \<rparr>"
        sample_config no_lookup initial_state no_files]
  by simp

text \<open>
  Claim C6. When the file cannot be read, the listener answers 404 with the content type
  \<open>text/html; charset=utf-8\<close> and the error page: a fixed template into which the path
  handed to \<open>serveFile\<close> is interpolated. The listener is a total function: the read
  error is a branch of it, not an exception.
\<close>

theorem not_found_response:
  "readFile (path_join [staticDir cfg, resolve (url req)]) = None \<Longrightarrow>
   fst (handle_request cfg lookup st readFile req) =
     \<lparr> status = 404,
       headers = [(''Content-Type'', HStr ''text/html; charset=utf-8'')],
       body = BodyString (str (lines notFound_head) @ str (resolve (url req))
                @ str (lines notFound_mid) @ [0x201A, 0xDC, 0xEA] @ str (lines notFound_tail)) \<rparr>"
  by (simp add: handle_request_def serveFile_def notFoundPage_def)

lemma resolve_sample_a: "resolve ''/a'' = ''a''" by code_simp

lemma resolve_sample_b: "resolve ''/b'' = ''b''" by code_simp

theorem not_found_response_witness:
  "no_files (path_join [staticDir sample_config, resolve (url \<lparr> req_method = ''GET'', url = ''/a'' \<rparr>)]) = None
   \<and> status (fst (handle_request sample_config no_lookup initial_state no_files
                    \<lparr> req_method = ''GET'', url = ''/a'' \<rparr>)) = 404"
  using not_found_response [of no_files sample_config "\<lparr> req_method = ''GET'', url = ''/a'' \<rparr>" no_lookup initial_state]
  by (simp add: no_files_def)

text \<open>
  The error page is not one static body: two missing paths get two different bodies.
\<close>

theorem not_found_body_varies:
  "body (fst (handle_request sample_config no_lookup initial_state no_files
                \<lparr> req_method = ''GET'', url = ''/a'' \<rparr>))
   \<noteq> body (fst (handle_request sample_config no_lookup initial_state no_files
                \<lparr> req_method = ''GET'', url = ''/b'' \<rparr>))"
  by (simp add: handle_request_def serveFile_def notFoundPage_def no_files_def resolve_sample_a resolve_sample_b str_def)

section \<open>UTF-8 and the replacement of the closing tag\<close>

lemma unat_byte: "n < 256 \<Longrightarrow> unat (of_nat n :: byte) = n"
  by (simp add: unat_of_nat)

lemma high_byte: "128 \<le> n \<Longrightarrow> n < 256 \<Longrightarrow> 128 \<le> unat (of_nat n :: byte)"
  by (simp add: unat_of_nat)

lemma enc_ascii: "cp < 128 \<Longrightarrow> utf8_encode_cp cp = [of_nat cp]"
  by (simp add: utf8_encode_cp_def)

lemma enc_high:
  assumes "128 \<le> cp"
  shows "utf8_encode_cp cp \<noteq> [] \<and> (\<forall>x \<in> set (utf8_encode_cp cp). 128 \<le> unat x)"
proof -
  have c0: "128 \<le> unat (of_nat (128 + cp mod 64) :: byte)"
    by (rule high_byte) simp_all
  have c1: "128 \<le> unat (of_nat (128 + cp div 64 mod 64) :: byte)"
    by (rule high_byte) simp_all
  have c2: "128 \<le> unat (of_nat (128 + cp div 4096 mod 64) :: byte)"
    by (rule high_byte) simp_all
  have r: "128 \<le> unat (0xEF :: byte)" "128 \<le> unat (0xBF :: byte)" "128 \<le> unat (0xBD :: byte)"
    by simp_all
  show ?thesis
  proof (cases "cp < 0x800")
    case True
    then have "128 \<le> unat (of_nat (192 + cp div 64) :: byte)"
      by (intro high_byte) simp_all
    with True assms c0 show ?thesis
      by (simp add: utf8_encode_cp_def del: of_nat_add)
  next
    case False
    show ?thesis
    proof (cases "(0xD800 \<le> cp \<and> cp \<le> 0xDFFF) \<or> 0x10FFFF < cp")
      case True
      with False assms r show ?thesis
        by (simp add: utf8_encode_cp_def del: of_nat_add)
    next
      case nb: False
      show ?thesis
      proof (cases "cp < 0x10000")
        case True
        then have "128 \<le> unat (of_nat (224 + cp div 4096) :: byte)"
          by (intro high_byte) simp_all
        with True False nb assms c0 c1 show ?thesis
          by (simp add: utf8_encode_cp_def del: of_nat_add)
      next
        case big: False
        from nb have "cp \<le> 0x10FFFF" by simp
        then have "128 \<le> unat (of_nat (240 + cp div 262144) :: byte)"
          by (intro high_byte) simp_all
        with big False nb assms c0 c1 c2 show ?thesis
          by (simp add: utf8_encode_cp_def del: of_nat_add)
      qed
    qed
  qed
qed

lemma Buffer_from_append: "Buffer_from (a @ b) = Buffer_from a @ Buffer_from b"
  by (simp add: Buffer_from_def)

lemma Buffer_from_Cons: "Buffer_from (c # t) = utf8_encode_cp c @ Buffer_from t"
  by (simp add: Buffer_from_def)

lemma Buffer_from_Nil: "Buffer_from [] = []"
  by (simp add: Buffer_from_def)

lemma replace_first_skip:
  assumes "unat c < 128" and "\<forall>x \<in> set bs. 128 \<le> unat x"
  shows "replace_first (c # p) r (bs @ rest) = bs @ replace_first (c # p) r rest"
  using assms(2)
proof (induction bs)
  case Nil
  show ?case by simp
next
  case (Cons b bs)
  then have "c \<noteq> b" using assms(1) by auto
  with Cons show ?case by simp
qed

lemma replace_first_prefix:
  "prefix p xs \<Longrightarrow> xs \<noteq> [] \<Longrightarrow> replace_first p r xs = r @ drop (length p) xs"
  by (cases xs) simp_all

lemma prefix_sync:
  "\<forall>c \<in> set p. c < 128 \<Longrightarrow> prefix (Buffer_from p) (Buffer_from t) = prefix p t"
proof (induction p arbitrary: t)
  case Nil
  show ?case by (simp add: Buffer_from_Nil)
next
  case (Cons c p)
  then have c: "c < 128" by simp
  show ?case
  proof (cases t)
    case Nil
    with c show ?thesis by (simp add: Buffer_from_Cons Buffer_from_Nil enc_ascii)
  next
    case (Cons d t')
    show ?thesis
    proof (cases "d < 128")
      case True
      have "unat (of_nat c :: byte) = c" "unat (of_nat d :: byte) = d"
        using c True by (simp_all add: unat_byte)
      then have "(of_nat c :: byte) = of_nat d \<longleftrightarrow> c = d"
        by metis
      with c True Cons Cons.IH [of t'] Cons.prems show ?thesis
        by (simp add: Buffer_from_Cons enc_ascii)
    next
      case False
      then obtain b bs where e: "utf8_encode_cp d = b # bs" and h: "128 \<le> unat b"
        using enc_high [of d] by (cases "utf8_encode_cp d") auto
      have "unat (of_nat c :: byte) = c" using c by (simp add: unat_byte)
      with h c have "of_nat c \<noteq> b" by auto
      moreover have "c \<noteq> d" using c False by simp
      ultimately show ?thesis using c Cons e
        by (simp add: Buffer_from_Cons enc_ascii)
    qed
  qed
qed

text \<open>
  Replacing an ASCII pattern in a text and encoding the result is the same as replacing the
  encoded pattern in the encoded text: no byte of a multi-byte sequence is below 128.
\<close>

lemma replace_first_sync:
  assumes "p \<noteq> []" and "\<forall>c \<in> set p. c < 128"
  shows "Buffer_from (replace_first p r t)
         = replace_first (Buffer_from p) (Buffer_from r) (Buffer_from t)"
proof -
  from assms obtain c p' where p: "p = c # p'" and c: "c < 128"
    by (cases p) auto
  have P: "Buffer_from p = of_nat c # Buffer_from p'"
    by (simp add: p Buffer_from_Cons enc_ascii c)
  have uc: "unat (of_nat c :: byte) < 128"
    using c by (simp add: unat_byte)
  show ?thesis
  proof (induction t)
    case Nil
    show ?case using P by (simp add: p Buffer_from_Nil)
  next
    case (Cons d t)
    show ?case
    proof (cases "prefix p (d # t)")
      case True
      then obtain s where s: "d # t = p @ s" by (auto simp: prefix_def)
      have nonempty: "Buffer_from (d # t) \<noteq> []"
        unfolding s p by (simp add: Buffer_from_Cons enc_ascii c)
      have bp: "prefix (Buffer_from p) (Buffer_from (d # t))"
        unfolding s by (simp add: Buffer_from_append)
      have "replace_first (Buffer_from p) (Buffer_from r) (Buffer_from (d # t))
            = Buffer_from r @ drop (length (Buffer_from p)) (Buffer_from (d # t))"
        using bp nonempty by (rule replace_first_prefix)
      also have "\<dots> = Buffer_from r @ Buffer_from s"
        unfolding s by (simp add: Buffer_from_append)
      finally have rhs: "replace_first (Buffer_from p) (Buffer_from r) (Buffer_from (d # t))
                         = Buffer_from r @ Buffer_from s" .
      have "replace_first p r (d # t) = r @ drop (length p) (d # t)"
        using True by simp
      also have "drop (length p) (d # t) = s"
        unfolding s by simp
      finally show ?thesis
        using rhs by (simp only: Buffer_from_append)
    next
      case False
      then have lhs: "Buffer_from (replace_first p r (d # t))
                      = utf8_encode_cp d @ Buffer_from (replace_first p r t)"
        by (simp add: Buffer_from_Cons)
      show ?thesis
      proof (cases "d < 128")
        case True
        have "\<not> prefix (Buffer_from p) (Buffer_from (d # t))"
          using False prefix_sync [OF assms(2), of "d # t"] by simp
        then show ?thesis
          using lhs True Cons.IH by (simp add: Buffer_from_Cons enc_ascii)
      next
        case high: False
        then have "\<forall>x \<in> set (utf8_encode_cp d). 128 \<le> unat x"
          using enc_high [of d] by simp
        then have "replace_first (of_nat c # Buffer_from p') (Buffer_from r)
                     (utf8_encode_cp d @ Buffer_from t)
                   = utf8_encode_cp d
                     @ replace_first (of_nat c # Buffer_from p') (Buffer_from r) (Buffer_from t)"
          using uc by (intro replace_first_skip)
        then show ?thesis
          using lhs Cons.IH by (simp add: P Buffer_from_Cons)
      qed
    qed
  qed
qed

lemma prefix_longer:
  "prefix p (a @ b) \<Longrightarrow> length p \<le> length a \<Longrightarrow> prefix p a"
  by (metis prefix_def Sublist.prefix_length_prefix)

lemma replace_first_at_first:
  assumes "p \<noteq> []" and "\<not> str_includes (pre @ butlast p) p"
  shows "replace_first p r (pre @ p @ post) = pre @ r @ post"
  using assms(2)
proof (induction pre)
  case Nil
  from assms(1) obtain c p' where "p = c # p'" by (cases p) auto
  then show ?case by simp
next
  case (Cons x pre)
  from Cons.prems have np: "\<not> prefix p (x # pre @ butlast p)"
    and rest: "\<not> str_includes (pre @ butlast p) p"
    by simp_all
  have "\<not> prefix p (x # pre @ p @ post)"
  proof
    assume "prefix p (x # pre @ p @ post)"
    moreover have "p = butlast p @ [last p]"
      using assms(1) by simp
    then have "x # pre @ p @ post = (x # pre @ butlast p) @ ([last p] @ post)"
      by (metis append_Cons append_assoc)
    ultimately have "prefix p ((x # pre @ butlast p) @ ([last p] @ post))"
      by simp
    moreover have "length p \<le> length (x # pre @ butlast p)"
      by simp
    ultimately have "prefix p (x # pre @ butlast p)"
      by (rule prefix_longer)
    with np show False ..
  qed
  with Cons.IH [OF rest] show ?case by simp
qed

lemma replace_first_absent:
  "p \<noteq> [] \<Longrightarrow> \<not> str_includes xs p \<Longrightarrow> replace_first p r xs = xs"
  by (induction xs) simp_all

lemma getSubstitution_literal: "36 \<notin> set r \<Longrightarrow> getSubstitution m b a r = r"
  by (induction m b a r rule: getSubstitution.induct) auto

lemma replace_at_literal:
  "36 \<notin> set r \<Longrightarrow> replace_at p r before s = before @ replace_first p r s"
  by (induction s arbitrary: before) (simp_all add: getSubstitution_literal)

lemma js_replace_literal: "36 \<notin> set r \<Longrightarrow> js_replace p r s = replace_first p r s"
  by (simp add: js_replace_def replace_at_literal)

lemma replace_at_absent:
  "p \<noteq> [] \<Longrightarrow> \<not> str_includes s p \<Longrightarrow> replace_at p r before s = before @ s"
  by (induction s arbitrary: before) simp_all

lemma js_replace_absent: "p \<noteq> [] \<Longrightarrow> \<not> str_includes s p \<Longrightarrow> js_replace p r s = s"
  by (simp add: js_replace_def replace_at_absent)

lemma includes_skip:
  assumes "unat c < 128" and "\<forall>x \<in> set bs. 128 \<le> unat x"
  shows "str_includes (bs @ rest) (c # p) = str_includes rest (c # p)"
  using assms(2)
proof (induction bs)
  case Nil
  show ?case by simp
next
  case (Cons b bs)
  then have "c \<noteq> b" using assms(1) by auto
  with Cons show ?case by simp
qed

text \<open>An ASCII pattern occurs in the encoded text exactly when it occurs in the text.\<close>

lemma includes_sync:
  assumes "p \<noteq> []" and "\<forall>c \<in> set p. c < 128"
  shows "str_includes (Buffer_from t) (Buffer_from p) = str_includes t p"
proof -
  from assms obtain c p' where p: "p = c # p'" and c: "c < 128"
    by (cases p) auto
  have P: "Buffer_from p = of_nat c # Buffer_from p'"
    by (simp add: p Buffer_from_Cons enc_ascii c)
  have uc: "unat (of_nat c :: byte) < 128"
    using c by (simp add: unat_byte)
  show ?thesis
  proof (induction t)
    case Nil
    show ?case using P by (simp add: p Buffer_from_Nil)
  next
    case (Cons d t)
    show ?case
    proof (cases "d < 128")
      case True
      have "prefix (Buffer_from p) (Buffer_from (d # t)) = prefix p (d # t)"
        using assms(2) by (rule prefix_sync)
      then show ?thesis
        using True Cons.IH by (simp add: Buffer_from_Cons enc_ascii)
    next
      case False
      then have "\<forall>x \<in> set (utf8_encode_cp d). 128 \<le> unat x"
        using enc_high [of d] by simp
      then have "str_includes (utf8_encode_cp d @ Buffer_from t) (of_nat c # Buffer_from p')
                 = str_includes (Buffer_from t) (of_nat c # Buffer_from p')"
        using uc by (intro includes_skip)
      moreover have "\<not> prefix p (d # t)"
        using False c by (simp add: p)
      ultimately show ?thesis
        using Cons.IH by (simp add: P Buffer_from_Cons)
    qed
  qed
qed

section \<open>Properties of the content responder\<close>

lemma tag_ascii: "\<forall>c \<in> set (str ''</body>''). c < 128"
  by (simp add: str_def)

lemma tag_nonempty: "str ''</body>'' \<noteq> []" "closing_tag \<noteq> []"
  by (simp_all add: str_def closing_tag_def Buffer_from_def utf8_encode_cp_def)

lemma serveFile_html:
  assumes "readFile (path_join [staticDir cfg, filePath]) = Some data"
    and "str_includes (getMimeType lookup filePath) ''text/html''"
    and "wsServer st \<noteq> None"
  shows "serveFile cfg lookup st readFile filePath =
     \<lparr> status = 200,
       headers = [(''Content-Type'', HStr (getMimeType lookup filePath)),
                  (''Cache-Control'', HStr ''no-cache, no-store, must-revalidate''),
                  (''Pragma'', HStr ''no-cache''),
                  (''Expires'', HStr ''0''),
                  (''Content-Length'', HNum (length (Buffer_from
                     (js_replace (str ''</body>'')
                        (str (liveReloadScript cfg) @ str ''</body>'') (toString data)))))],
       body = BodyBuffer (Buffer_from
                (js_replace (str ''</body>'')
                   (str (liveReloadScript cfg) @ str ''</body>'') (toString data))) \<rparr>"
  using assms by (simp add: serveFile_def Let_def)

lemma str_dollar: "36 \<in> set (str s) \<longleftrightarrow> CHR ''$'' \<in> set s"
proof -
  have a: "(of_char CHR ''$'' :: nat) = 36"
    by simp
  have b: "c = CHR ''$''" if "of_char c = (36::nat)" for c
    using that a by (metis of_char_eq_iff)
  have "(36::nat) \<in> of_char ` set s \<longleftrightarrow> CHR ''$'' \<in> set s"
    using a b by (metis (no_types, lifting) image_iff)
  then show ?thesis
    by (simp add: str_def)
qed

lemma script_text_dollar_free:
  "CHR ''$'' \<notin> set (lines liveReloadScript_head)"
  "CHR ''$'' \<notin> set (lines liveReloadScript_tail)"
  by (simp_all add: lines_def liveReloadScript_head_def liveReloadScript_tail_def)

text \<open>
  The replacement, the script followed by the tag, holds a dollar sign only if the port
  interpolated into the script does.
\<close>

lemma script_dollar_free:
  assumes "CHR ''$'' \<notin> set (js_toString (js_plus (port cfg) (JNum 1)))"
  shows "36 \<notin> set (str (liveReloadScript cfg) @ str ''</body>'')"
  using assms script_text_dollar_free
  by (simp add: str_dollar liveReloadScript_def)

lemma serveFile_html_literal:
  assumes "readFile (path_join [staticDir cfg, filePath]) = Some data"
    and "str_includes (getMimeType lookup filePath) ''text/html''"
    and "wsServer st \<noteq> None"
    and "CHR ''$'' \<notin> set (js_toString (js_plus (port cfg) (JNum 1)))"
  shows "serveFile cfg lookup st readFile filePath =
     \<lparr> status = 200,
       headers = [(''Content-Type'', HStr (getMimeType lookup filePath)),
                  (''Cache-Control'', HStr ''no-cache, no-store, must-revalidate''),
                  (''Pragma'', HStr ''no-cache''),
                  (''Expires'', HStr ''0''),
                  (''Content-Length'', HNum (length (Buffer_from
                     (replace_first (str ''</body>'')
                        (str (liveReloadScript cfg) @ str ''</body>'') (toString data)))))],
       body = BodyBuffer (Buffer_from
                (replace_first (str ''</body>'')
                   (str (liveReloadScript cfg) @ str ''</body>'') (toString data))) \<rparr>"
  using assms serveFile_html [of readFile cfg filePath data lookup st]
    js_replace_literal [OF script_dollar_free, of cfg "str ''</body>''" "toString data"]
  by simp

lemma serveFile_plain:
  assumes "readFile (path_join [staticDir cfg, filePath]) = Some data"
    and "\<not> (str_includes (getMimeType lookup filePath) ''text/html'' \<and> wsServer st \<noteq> None)"
  shows "serveFile cfg lookup st readFile filePath =
     \<lparr> status = 200,
       headers = [(''Content-Type'', HStr (getMimeType lookup filePath)),
                  (''Cache-Control'', HStr ''no-cache, no-store, must-revalidate''),
                  (''Pragma'', HStr ''no-cache''),
                  (''Expires'', HStr ''0'')],
       body = BodyBuffer data \<rparr>"
  using assms by (auto simp add: serveFile_def Let_def)

lemma injected_bytes:
  assumes "Buffer_from (toString data) = data"
  shows "Buffer_from (replace_first (str ''</body>'')
           (str (liveReloadScript cfg) @ str ''</body>'') (toString data))
         = replace_first closing_tag (script_bytes cfg @ closing_tag) data"
  using replace_first_sync [OF tag_nonempty(1) tag_ascii,
      of "str (liveReloadScript cfg) @ str ''</body>''" "toString data"] assms
  by (simp add: closing_tag_def script_bytes_def Buffer_from_append)

lemma sample_paths:
  "path_join [staticDir sample_config, ''twice.html''] = ''/srv/app/src/twice.html''"
  "path_join [staticDir sample_config, ''plain.html''] = ''/srv/app/src/plain.html''"
  "path_join [staticDir sample_config, ''latin1.html''] = ''/srv/app/src/latin1.html''"
  "path_join [staticDir sample_config, ''site.css''] = ''/srv/app/src/site.css''"
  by code_simp+

lemma sample_mime:
  "str_includes (getMimeType no_lookup ''twice.html'') ''text/html''"
  "str_includes (getMimeType no_lookup ''plain.html'') ''text/html''"
  "str_includes (getMimeType no_lookup ''latin1.html'') ''text/html''"
  "\<not> str_includes (getMimeType no_lookup ''site.css'') ''text/html''"
  by code_simp+

lemma sample_port_dollar_free:
  "CHR ''$'' \<notin> set (js_toString (js_plus (port sample_config) (JNum 1)))"
  by (simp add: sample_config_def mk_config_def no_env_def env_or_def show_int_def
      show_nat.simps digit_def)

text \<open>
  Claim C4. A file that is read is answered with status 200. For an HTML type with the push
  channel active, the body is a Buffer and \<open>Content-Length\<close> is its length in bytes;
  when moreover the file is valid UTF-8 (decoding and encoding give it back) and the port
  written into the script holds no dollar sign, the body is the file with the script
  inserted immediately before its first closing body tag. For any other type, or without a
  push channel, the body is the file as read.
\<close>

theorem serveFile_injects_script:
  assumes "readFile (path_join [staticDir cfg, filePath]) = Some data"
  shows "status (serveFile cfg lookup st readFile filePath) = 200
   \<and> (str_includes (getMimeType lookup filePath) ''text/html'' \<and> wsServer st \<noteq> None \<longrightarrow>
        (\<exists>out. body (serveFile cfg lookup st readFile filePath) = BodyBuffer out
           \<and> map_of (headers (serveFile cfg lookup st readFile filePath)) ''Content-Length''
               = Some (HNum (length out)))
        \<and> (CHR ''$'' \<notin> set (js_toString (js_plus (port cfg) (JNum 1)))
             \<and> Buffer_from (toString data) = data \<and> data = pre @ closing_tag @ post
             \<and> \<not> str_includes (pre @ butlast closing_tag) closing_tag \<longrightarrow>
            body (serveFile cfg lookup st readFile filePath)
              = BodyBuffer (pre @ script_bytes cfg @ closing_tag @ post)))
   \<and> (\<not> (str_includes (getMimeType lookup filePath) ''text/html'' \<and> wsServer st \<noteq> None) \<longrightarrow>
        body (serveFile cfg lookup st readFile filePath) = BodyBuffer data)"
proof (intro conjI impI)
  show "status (serveFile cfg lookup st readFile filePath) = 200"
    using assms by (simp add: serveFile_def Let_def)
next
  assume h: "str_includes (getMimeType lookup filePath) ''text/html'' \<and> wsServer st \<noteq> None"
  then show "\<exists>out. body (serveFile cfg lookup st readFile filePath) = BodyBuffer out
           \<and> map_of (headers (serveFile cfg lookup st readFile filePath)) ''Content-Length''
               = Some (HNum (length out))"
    using assms serveFile_html [of readFile cfg filePath data lookup st] by simp
next
  assume h: "str_includes (getMimeType lookup filePath) ''text/html'' \<and> wsServer st \<noteq> None"
    and v: "CHR ''$'' \<notin> set (js_toString (js_plus (port cfg) (JNum 1)))
             \<and> Buffer_from (toString data) = data \<and> data = pre @ closing_tag @ post
             \<and> \<not> str_includes (pre @ butlast closing_tag) closing_tag"
  from v have literal: "CHR ''$'' \<notin> set (js_toString (js_plus (port cfg) (JNum 1)))"
    and valid: "Buffer_from (toString data) = data"
    and split: "data = pre @ closing_tag @ post"
    and first: "\<not> str_includes (pre @ butlast closing_tag) closing_tag"
    by blast+
  have "body (serveFile cfg lookup st readFile filePath)
        = BodyBuffer (Buffer_from (replace_first (str ''</body>'')
            (str (liveReloadScript cfg) @ str ''</body>'') (toString data)))"
    using h assms literal serveFile_html_literal [of readFile cfg filePath data lookup st]
    by simp
  also have "Buffer_from (replace_first (str ''</body>'')
            (str (liveReloadScript cfg) @ str ''</body>'') (toString data))
        = replace_first closing_tag (script_bytes cfg @ closing_tag) data"
    using valid by (rule injected_bytes)
  also have "\<dots> = replace_first closing_tag (script_bytes cfg @ closing_tag)
                       (pre @ closing_tag @ post)"
    by (simp only: split [symmetric])
  also have "\<dots> = pre @ (script_bytes cfg @ closing_tag) @ post"
    using tag_nonempty(2) first by (rule replace_first_at_first)
  finally show "body (serveFile cfg lookup st readFile filePath)
              = BodyBuffer (pre @ script_bytes cfg @ closing_tag @ post)"
    by simp
next
  assume "\<not> (str_includes (getMimeType lookup filePath) ''text/html'' \<and> wsServer st \<noteq> None)"
  then show "body (serveFile cfg lookup st readFile filePath) = BodyBuffer data"
    using assms serveFile_plain [of readFile cfg filePath data lookup st] by simp
qed

theorem serveFile_injects_script_witness:
  "sample_files (path_join [staticDir sample_config, ''twice.html''])
     = Some (ascii_bytes ''<body></body></body>'')
   \<and> str_includes (getMimeType no_lookup ''twice.html'') ''text/html''
   \<and> wsServer three_clients \<noteq> None
   \<and> CHR ''$'' \<notin> set (js_toString (js_plus (port sample_config) (JNum 1)))
   \<and> Buffer_from (toString (ascii_bytes ''<body></body></body>'')) = ascii_bytes ''<body></body></body>''
   \<and> ascii_bytes ''<body></body></body>'' = ascii_bytes ''<body>'' @ closing_tag @ ascii_bytes ''</body>''
   \<and> \<not> str_includes (ascii_bytes ''<body>'' @ butlast closing_tag) closing_tag
   \<and> body (serveFile sample_config no_lookup three_clients sample_files ''twice.html'')
       = BodyBuffer (ascii_bytes ''<body>'' @ script_bytes sample_config @ closing_tag
                       @ ascii_bytes ''</body>'')
   \<and> sample_files (path_join [staticDir sample_config, ''site.css'']) = Some (ascii_bytes ''p{}'')
   \<and> \<not> str_includes (getMimeType no_lookup ''site.css'') ''text/html''
   \<and> body (serveFile sample_config no_lookup three_clients sample_files ''site.css'')
       = BodyBuffer (ascii_bytes ''p{}'')"
proof -
  have f1: "sample_files (path_join [staticDir sample_config, ''twice.html''])
     = Some (ascii_bytes ''<body></body></body>'')"
    by (simp add: sample_paths sample_files_def)
  have f2: "sample_files (path_join [staticDir sample_config, ''site.css'']) = Some (ascii_bytes ''p{}'')"
    by (simp add: sample_paths sample_files_def)
  have ws: "wsServer three_clients \<noteq> None"
    by (simp add: three_clients_def)
  have v: "Buffer_from (toString (ascii_bytes ''<body></body></body>'')) = ascii_bytes ''<body></body></body>''"
    by code_simp
  have s: "ascii_bytes ''<body></body></body>'' = ascii_bytes ''<body>'' @ closing_tag @ ascii_bytes ''</body>''"
    by code_simp
  have n: "\<not> str_includes (ascii_bytes ''<body>'' @ butlast closing_tag) closing_tag"
    by code_simp
  show ?thesis
    using f1 f2 ws v s n sample_mime(1,4) sample_port_dollar_free
      serveFile_injects_script [where readFile = sample_files and cfg = sample_config
        and filePath = "''twice.html''" and data = "ascii_bytes ''<body></body></body>''"
        and lookup = no_lookup and st = three_clients
        and pre = "ascii_bytes ''<body>''" and post = "ascii_bytes ''</body>''"]
      serveFile_injects_script [where readFile = sample_files and cfg = sample_config
        and filePath = "''site.css''" and data = "ascii_bytes ''p{}''"
        and lookup = no_lookup and st = three_clients]
    by simp
qed

lemma latin1_decoded: "toString (0xE9 # ascii_bytes ''</body>'') = [0xFFFD] @ str ''</body>'' @ []"
  by (simp add: toString_def ascii_bytes_def utf8_lead_def str_def)

lemma latin1_first: "\<not> str_includes ([0xFFFD] @ butlast (str ''</body>'')) (str ''</body>'')"
  by (simp add: str_def)

lemma replacement_bytes: "Buffer_from [0xFFFD] = [0xEF, 0xBF, 0xBD]"
  by (simp add: Buffer_from_def utf8_encode_cp_def)

text \<open>
  A file that is not valid UTF-8 is not served as it is: the byte E9 (Latin-1 e acute)
  before the closing tag leaves as the three bytes of U+FFFD.
\<close>

theorem latin1_page_is_rewritten:
  "sample_files (path_join [staticDir sample_config, ''latin1.html''])
     = Some (0xE9 # ascii_bytes ''</body>'')
   \<and> str_includes (getMimeType no_lookup ''latin1.html'') ''text/html''
   \<and> wsServer three_clients \<noteq> None
   \<and> ascii_bytes ''</body>'' = closing_tag
   \<and> body (serveFile sample_config no_lookup three_clients sample_files ''latin1.html'')
       = BodyBuffer ([0xEF, 0xBF, 0xBD] @ script_bytes sample_config @ closing_tag)
   \<and> body (serveFile sample_config no_lookup three_clients sample_files ''latin1.html'')
       \<noteq> BodyBuffer ([0xE9] @ script_bytes sample_config @ closing_tag)"
proof -
  have f: "sample_files (path_join [staticDir sample_config, ''latin1.html''])
     = Some (0xE9 # ascii_bytes ''</body>'')"
    by (simp add: sample_paths sample_files_def)
  have ws: "wsServer three_clients \<noteq> None"
    by (simp add: three_clients_def)
  have t: "ascii_bytes ''</body>'' = closing_tag"
    by code_simp
  have "replace_first (str ''</body>'') (str (liveReloadScript sample_config) @ str ''</body>'')
          ([0xFFFD] @ str ''</body>'' @ [])
        = [0xFFFD] @ (str (liveReloadScript sample_config) @ str ''</body>'') @ []"
    using tag_nonempty(1) latin1_first by (rule replace_first_at_first)
  then have "Buffer_from (replace_first (str ''</body>'')
               (str (liveReloadScript sample_config) @ str ''</body>'')
               (toString (0xE9 # ascii_bytes ''</body>'')))
             = [0xEF, 0xBF, 0xBD] @ script_bytes sample_config @ closing_tag"
    by (simp only: latin1_decoded Buffer_from_append replacement_bytes script_bytes_def
        closing_tag_def Buffer_from_Nil append_Nil2)
  then have b: "body (serveFile sample_config no_lookup three_clients sample_files ''latin1.html'')
       = BodyBuffer ([0xEF, 0xBF, 0xBD] @ script_bytes sample_config @ closing_tag)"
    using serveFile_html_literal [of sample_files sample_config "''latin1.html''"
        "0xE9 # ascii_bytes ''</body>''" no_lookup three_clients] f ws sample_mime(3)
      sample_port_dollar_free
    by simp
  show ?thesis
    using f ws t b sample_mime(3) by simp
qed

text \<open>
  Claim C10. For an HTML file whose text has no closing body tag, no script is injected:
  with the push channel active the body is the text encoded again (the file itself when it
  is valid UTF-8) and \<open>Content-Length\<close> is set to its length; without a push channel
  the body is the file and there is no \<open>Content-Length\<close>. When the text has a closing
  tag (and the port written into the script holds no dollar sign), the script goes before
  the first one, whatever follows it.
\<close>

theorem html_without_closing_tag:
  assumes "readFile (path_join [staticDir cfg, filePath]) = Some data"
    and "str_includes (getMimeType lookup filePath) ''text/html''"
  shows "(wsServer st \<noteq> None \<and> \<not> str_includes (toString data) (str ''</body>'') \<longrightarrow>
            body (serveFile cfg lookup st readFile filePath)
              = BodyBuffer (Buffer_from (toString data))
          \<and> map_of (headers (serveFile cfg lookup st readFile filePath)) ''Content-Length''
              = Some (HNum (length (Buffer_from (toString data)))))
   \<and> (wsServer st \<noteq> None \<and> Buffer_from (toString data) = data
        \<and> \<not> str_includes data closing_tag \<longrightarrow>
            body (serveFile cfg lookup st readFile filePath) = BodyBuffer data
          \<and> map_of (headers (serveFile cfg lookup st readFile filePath)) ''Content-Length''
              = Some (HNum (length data)))
   \<and> (wsServer st = None \<longrightarrow>
            body (serveFile cfg lookup st readFile filePath) = BodyBuffer data
          \<and> map_of (headers (serveFile cfg lookup st readFile filePath)) ''Content-Length''
              = None)
   \<and> (wsServer st \<noteq> None \<and> CHR ''$'' \<notin> set (js_toString (js_plus (port cfg) (JNum 1)))
        \<and> toString data = pre @ str ''</body>'' @ post
        \<and> \<not> str_includes (pre @ butlast (str ''</body>'')) (str ''</body>'') \<longrightarrow>
            body (serveFile cfg lookup st readFile filePath)
              = BodyBuffer (Buffer_from pre @ script_bytes cfg @ closing_tag @ Buffer_from post))"
proof (intro conjI impI)
  assume h: "wsServer st \<noteq> None \<and> \<not> str_includes (toString data) (str ''</body>'')"
  then have "js_replace (str ''</body>'') (str (liveReloadScript cfg) @ str ''</body>'')
               (toString data) = toString data"
    using tag_nonempty(1) by (intro js_replace_absent) simp_all
  with h show "body (serveFile cfg lookup st readFile filePath)
                 = BodyBuffer (Buffer_from (toString data))"
    and "map_of (headers (serveFile cfg lookup st readFile filePath)) ''Content-Length''
              = Some (HNum (length (Buffer_from (toString data))))"
    using assms serveFile_html [of readFile cfg filePath data lookup st] by simp_all
next
  assume h: "wsServer st \<noteq> None \<and> Buffer_from (toString data) = data
        \<and> \<not> str_includes data closing_tag"
  then have valid: "Buffer_from (toString data) = data" by blast
  have "str_includes (Buffer_from (toString data)) (Buffer_from (str ''</body>''))
        = str_includes (toString data) (str ''</body>'')"
    using tag_nonempty(1) tag_ascii by (rule includes_sync)
  with h valid have "\<not> str_includes (toString data) (str ''</body>'')"
    by (simp add: closing_tag_def)
  then have "js_replace (str ''</body>'') (str (liveReloadScript cfg) @ str ''</body>'')
               (toString data) = toString data"
    using tag_nonempty(1) by (intro js_replace_absent) simp_all
  with valid have "Buffer_from (js_replace (str ''</body>'')
            (str (liveReloadScript cfg) @ str ''</body>'') (toString data)) = data"
    by simp
  then show "body (serveFile cfg lookup st readFile filePath) = BodyBuffer data"
    and "map_of (headers (serveFile cfg lookup st readFile filePath)) ''Content-Length''
              = Some (HNum (length data))"
    using h assms serveFile_html [of readFile cfg filePath data lookup st] by simp_all
next
  assume h: "wsServer st = None"
  then show "body (serveFile cfg lookup st readFile filePath) = BodyBuffer data"
    and "map_of (headers (serveFile cfg lookup st readFile filePath)) ''Content-Length'' = None"
    using assms serveFile_plain [of readFile cfg filePath data lookup st] by simp_all
next
  assume h: "wsServer st \<noteq> None \<and> CHR ''$'' \<notin> set (js_toString (js_plus (port cfg) (JNum 1)))
        \<and> toString data = pre @ str ''</body>'' @ post
        \<and> \<not> str_includes (pre @ butlast (str ''</body>'')) (str ''</body>'')"
  then have literal: "CHR ''$'' \<notin> set (js_toString (js_plus (port cfg) (JNum 1)))"
    and split: "toString data = pre @ str ''</body>'' @ post"
    and first: "\<not> str_includes (pre @ butlast (str ''</body>'')) (str ''</body>'')"
    by blast+
  have "replace_first (str ''</body>'') (str (liveReloadScript cfg) @ str ''</body>'')
          (pre @ str ''</body>'' @ post)
        = pre @ (str (liveReloadScript cfg) @ str ''</body>'') @ post"
    using tag_nonempty(1) first by (rule replace_first_at_first)
  then have "Buffer_from (replace_first (str ''</body>'')
               (str (liveReloadScript cfg) @ str ''</body>'') (toString data))
             = Buffer_from pre @ script_bytes cfg @ closing_tag @ Buffer_from post"
    by (simp only: split Buffer_from_append script_bytes_def closing_tag_def append_assoc)
  with h show "body (serveFile cfg lookup st readFile filePath)
              = BodyBuffer (Buffer_from pre @ script_bytes cfg @ closing_tag @ Buffer_from post)"
    using assms literal serveFile_html_literal [of readFile cfg filePath data lookup st]
    by simp
qed

lemma plain_decoded: "toString (ascii_bytes ''<p>hi</p>'') = str ''<p>hi</p>''"
  by (simp add: toString_def ascii_bytes_def utf8_lead_def str_def)

lemma plain_encoded: "Buffer_from (str ''<p>hi</p>'') = ascii_bytes ''<p>hi</p>''"
  by (simp add: Buffer_from_def utf8_encode_cp_def ascii_bytes_def str_def)

lemma plain_no_tag:
  "\<not> str_includes (str ''<p>hi</p>'') (str ''</body>'')"
  "\<not> str_includes (ascii_bytes ''<p>hi</p>'') closing_tag"
  by (simp_all add: str_def ascii_bytes_def closing_tag_def Buffer_from_def utf8_encode_cp_def)

lemma twice_decoded:
  "toString (ascii_bytes ''<body></body></body>'') = str ''<body>'' @ str ''</body>'' @ str ''</body>''"
  by (simp add: toString_def ascii_bytes_def utf8_lead_def str_def)

lemma twice_first: "\<not> str_includes (str ''<body>'' @ butlast (str ''</body>'')) (str ''</body>'')"
  by (simp add: str_def)

lemma twice_encoded:
  "Buffer_from (str ''<body>'') = ascii_bytes ''<body>''"
  "Buffer_from (str ''</body>'') = ascii_bytes ''</body>''"
  by (simp_all add: Buffer_from_def utf8_encode_cp_def ascii_bytes_def str_def)

theorem html_without_closing_tag_witness:
  "sample_files (path_join [staticDir sample_config, ''plain.html'']) = Some (ascii_bytes ''<p>hi</p>'')
   \<and> str_includes (getMimeType no_lookup ''plain.html'') ''text/html''
   \<and> wsServer three_clients \<noteq> None
   \<and> \<not> str_includes (toString (ascii_bytes ''<p>hi</p>'')) (str ''</body>'')
   \<and> Buffer_from (toString (ascii_bytes ''<p>hi</p>'')) = ascii_bytes ''<p>hi</p>''
   \<and> \<not> str_includes (ascii_bytes ''<p>hi</p>'') closing_tag
   \<and> body (serveFile sample_config no_lookup three_clients sample_files ''plain.html'')
       = BodyBuffer (ascii_bytes ''<p>hi</p>'')
   \<and> map_of (headers (serveFile sample_config no_lookup three_clients sample_files ''plain.html''))
         ''Content-Length'' = Some (HNum (length (ascii_bytes ''<p>hi</p>'')))
   \<and> wsServer initial_state = None
   \<and> map_of (headers (serveFile sample_config no_lookup initial_state sample_files ''plain.html''))
         ''Content-Length'' = None
   \<and> sample_files (path_join [staticDir sample_config, ''twice.html''])
       = Some (ascii_bytes ''<body></body></body>'')
   \<and> str_includes (getMimeType no_lookup ''twice.html'') ''text/html''
   \<and> CHR ''$'' \<notin> set (js_toString (js_plus (port sample_config) (JNum 1)))
   \<and> toString (ascii_bytes ''<body></body></body>'')
       = str ''<body>'' @ str ''</body>'' @ str ''</body>''
   \<and> \<not> str_includes (str ''<body>'' @ butlast (str ''</body>'')) (str ''</body>'')
   \<and> body (serveFile sample_config no_lookup three_clients sample_files ''twice.html'')
       = BodyBuffer (ascii_bytes ''<body>'' @ script_bytes sample_config @ closing_tag
                       @ ascii_bytes ''</body>'')"
proof -
  have f1: "sample_files (path_join [staticDir sample_config, ''plain.html''])
              = Some (ascii_bytes ''<p>hi</p>'')"
    and f2: "sample_files (path_join [staticDir sample_config, ''twice.html''])
              = Some (ascii_bytes ''<body></body></body>'')"
    by (simp_all add: sample_paths sample_files_def)
  have ws: "wsServer three_clients \<noteq> None" "wsServer initial_state = None"
    by (simp_all add: three_clients_def initial_state_def)
  show ?thesis
    using f1 f2 ws sample_mime(1,2) plain_decoded plain_encoded plain_no_tag twice_decoded
      twice_first twice_encoded sample_port_dollar_free
      html_without_closing_tag [where readFile = sample_files and cfg = sample_config
        and filePath = "''plain.html''" and data = "ascii_bytes ''<p>hi</p>''"
        and lookup = no_lookup and st = three_clients]
      html_without_closing_tag [where readFile = sample_files and cfg = sample_config
        and filePath = "''plain.html''" and data = "ascii_bytes ''<p>hi</p>''"
        and lookup = no_lookup and st = initial_state]
      html_without_closing_tag [where readFile = sample_files and cfg = sample_config
        and filePath = "''twice.html''" and data = "ascii_bytes ''<body></body></body>''"
        and lookup = no_lookup and st = three_clients
        and pre = "str ''<body>''" and post = "str ''</body>''"]
    by simp
qed

text \<open>
  With the push channel active, \<open>Content-Length\<close> is set also when the file has no
  closing body tag.
\<close>

theorem content_length_without_closing_tag:
  "sample_files (path_join [staticDir sample_config, ''plain.html'']) = Some (ascii_bytes ''<p>hi</p>'')
   \<and> str_includes (getMimeType no_lookup ''plain.html'') ''text/html''
   \<and> \<not> str_includes (ascii_bytes ''<p>hi</p>'') closing_tag
   \<and> map_of (headers (serveFile sample_config no_lookup three_clients sample_files ''plain.html''))
         ''Content-Length'' = Some (HNum 9)"
proof -
  have f: "sample_files (path_join [staticDir sample_config, ''plain.html''])
             = Some (ascii_bytes ''<p>hi</p>'')"
    by (simp add: sample_paths sample_files_def)
  have ws: "wsServer three_clients \<noteq> None"
    by (simp add: three_clients_def)
  have "js_replace (str ''</body>'') (str (liveReloadScript sample_config) @ str ''</body>'')
          (str ''<p>hi</p>'') = str ''<p>hi</p>''"
    using tag_nonempty(1) plain_no_tag(1) by (rule js_replace_absent)
  then have "length (Buffer_from (js_replace (str ''</body>'')
               (str (liveReloadScript sample_config) @ str ''</body>'')
               (toString (ascii_bytes ''<p>hi</p>'')))) = 9"
    by (simp only: plain_decoded plain_encoded) (simp add: ascii_bytes_def)
  then have "map_of (headers (serveFile sample_config no_lookup three_clients sample_files ''plain.html''))
         ''Content-Length'' = Some (HNum 9)"
    using serveFile_html [of sample_files sample_config "''plain.html''"
        "ascii_bytes ''<p>hi</p>''" no_lookup three_clients] f ws sample_mime(2)
    by simp
  with f sample_mime(2) plain_no_tag(2) show ?thesis by simp
qed

section \<open>Properties of the file watcher\<close>

lemma advance_early:
  assumes "one_pending st t" and "now < t + 100"
  shows "advance now st = st"
  using assms by (auto simp: one_pending_def advance_def)

lemma scheduleReload_pending:
  assumes "timers st = [] \<or> one_pending st t"
  shows "one_pending (scheduleReload now ev p st) now
         \<and> broadcasts (scheduleReload now ev p st) = broadcasts st
         \<and> server (scheduleReload now ev p st) = server st"
  using assms
  by (auto simp: one_pending_def scheduleReload_def clearTimeout_def setTimeout_def Let_def)

lemma on_watch_event_pending:
  assumes "one_pending st t" and "arrival e < t + 100"
  shows "one_pending (on_watch_event e st) (arrival e)
         \<and> broadcasts (on_watch_event e st) = broadcasts st
         \<and> server (on_watch_event e st) = server st"
  using assms scheduleReload_pending [of st t] advance_early [OF assms]
  by (simp add: on_watch_event_def)

lemma run_events_pending:
  assumes "one_pending st t" and "rapid t es"
  shows "one_pending (run_events es st) (last_arrival t es)
         \<and> broadcasts (run_events es st) = broadcasts st
         \<and> server (run_events es st) = server st"
  using assms
proof (induction es arbitrary: st t)
  case Nil
  then show ?case by (simp add: run_events_def)
next
  case (Cons e es)
  from Cons.prems have early: "arrival e < t + 100" and rest: "rapid (arrival e) es"
    by simp_all
  note step = on_watch_event_pending [OF Cons.prems(1) early]
  from step have p: "one_pending (on_watch_event e st) (arrival e)" by blast
  from Cons.IH [OF p rest] step show ?case
    by (simp add: run_events_def)
qed

lemma advance_fires:
  assumes "one_pending st t"
  shows "broadcasts (advance T st)
         = broadcasts st @ (if t + 100 \<le> T then [t + 100] else [])"
    and "sent (server (advance T st))
         = (if t + 100 \<le> T then sent (broadcastReload (server st)) else sent (server st))"
  using assms by (auto simp: one_pending_def advance_def run_callback_def broadcastReload_def)

lemma last_arrival_last: "last_arrival t es = (if es = [] then t else arrival (last es))"
  by (induction es arbitrary: t) simp_all

text \<open>
  Claim C2. Start from the watcher as \<open>setupFileWatcher\<close> leaves it and let N \<ge> 1
  events arrive, each less than 100 ms after the one before. Whatever time \<open>T\<close> the
  event loop has then reached, \<open>broadcastReload\<close> has been called exactly once if
  \<open>T\<close> is at least 100 ms after the last event, by the timer due at that moment, and not
  at all before; the messages sent are those of one broadcast.
\<close>

theorem debounce_one_broadcast:
  assumes "rapid (arrival e) es"
  shows "broadcasts (advance T (run_events (e # es) (setupFileWatcher sv)))
         = (if arrival (last (e # es)) + 100 \<le> T then [arrival (last (e # es)) + 100] else [])
   \<and> sent (server (advance T (run_events (e # es) (setupFileWatcher sv))))
         = (if arrival (last (e # es)) + 100 \<le> T then sent (broadcastReload sv) else sent sv)"
proof -
  let ?st0 = "setupFileWatcher sv"
  have adv0: "timers (advance (arrival e) ?st0) = []"
    "broadcasts (advance (arrival e) ?st0) = []"
    "server (advance (arrival e) ?st0) = server ?st0"
    by (simp_all add: advance_def setupFileWatcher_def)
  have first: "one_pending (on_watch_event e ?st0) (arrival e)
               \<and> broadcasts (on_watch_event e ?st0) = []
               \<and> server (on_watch_event e ?st0) = server ?st0"
    using scheduleReload_pending [of "advance (arrival e) ?st0" _ "arrival e"] adv0
    by (simp add: on_watch_event_def)
  then have p: "one_pending (on_watch_event e ?st0) (arrival e)" by blast
  have run: "run_events (e # es) ?st0 = run_events es (on_watch_event e ?st0)"
    by (simp add: run_events_def)
  from run_events_pending [OF p assms] first
  have q: "one_pending (run_events (e # es) ?st0) (last_arrival (arrival e) es)"
    and b: "broadcasts (run_events (e # es) ?st0) = []"
    and s: "server (run_events (e # es) ?st0) = server ?st0"
    by (simp_all add: run)
  have la: "last_arrival (arrival e) es = arrival (last (e # es))"
    by (simp add: last_arrival_last)
  have sv: "sent (server ?st0) = sent sv" "sent (broadcastReload (server ?st0)) = sent (broadcastReload sv)"
    by (simp_all add: setupFileWatcher_def broadcastReload_def)
  show ?thesis
    using advance_fires [OF q, of T] b s la sv by simp
qed

theorem debounce_one_broadcast_witness:
  "rapid (arrival burst_first) burst_rest
   \<and> broadcasts (advance 500 (run_events (burst_first # burst_rest) (setupFileWatcher three_clients)))
       = [230]
   \<and> sent (server (advance 500 (run_events (burst_first # burst_rest) (setupFileWatcher three_clients))))
       = [(1, ''reload''), (3, ''reload'')]
   \<and> broadcasts (advance 229 (run_events (burst_first # burst_rest) (setupFileWatcher three_clients)))
       = []"
proof -
  have r: "rapid (arrival burst_first) burst_rest"
    by (simp add: burst_first_def burst_rest_def)
  have s: "sent (broadcastReload three_clients) = [(1, ''reload''), (3, ''reload'')]"
    by (simp add: broadcastReload_def three_clients_def)
  show ?thesis
    using r s debounce_one_broadcast [OF r, of 500 three_clients]
      debounce_one_broadcast [OF r, of 229 three_clients]
    by (simp add: burst_rest_def)
qed

section \<open>Properties of the path functions\<close>

lemma split_on_nonempty: "split_on c xs \<noteq> []"
  by (induction xs) (auto split: list.splits)

lemma split_on_none: "c \<notin> set xs \<Longrightarrow> split_on c xs = [xs]"
  by (induction xs) auto

lemma split_on_append:
  "split_on c (xs @ c # ys) = split_on c xs @ split_on c ys"
proof (induction xs)
  case Nil
  show ?case by simp
next
  case (Cons x xs)
  obtain s ss where s: "split_on c xs = s # ss"
    using split_on_nonempty [of c xs] by (cases "split_on c xs") auto
  with Cons show ?case by simp
qed

lemma split_on_free: "s \<in> set (split_on c xs) \<Longrightarrow> c \<notin> set s"
proof (induction xs arbitrary: s)
  case Nil
  then show ?case by simp
next
  case (Cons x xs)
  obtain t ts where t: "split_on c xs = t # ts"
    using split_on_nonempty [of c xs] by (cases "split_on c xs") auto
  with Cons show ?case by (auto split: if_splits)
qed

lemma hd_split_on: "hd (split_on c xs) = takeWhile (\<lambda>x. x \<noteq> c) xs"
proof (induction xs)
  case Nil
  show ?case by simp
next
  case (Cons x xs)
  obtain t ts where t: "split_on c xs = t # ts"
    using split_on_nonempty [of c xs] by (cases "split_on c xs") auto
  with Cons show ?case by simp
qed

lemma split_on_join:
  "segs \<noteq> [] \<Longrightarrow> \<forall>s \<in> set segs. c \<notin> set s \<Longrightarrow> split_on c (join_with [c] segs) = segs"
proof (induction "[c]" segs rule: join_with.induct)
  case 1
  then show ?case by simp
next
  case (2 x)
  then show ?case by (simp add: split_on_none)
next
  case (3 x y ys)
  then show ?case by (simp add: split_on_append split_on_none)
qed

lemma join_with_append:
  "xs \<noteq> [] \<Longrightarrow> ys \<noteq> [] \<Longrightarrow> join_with sep (xs @ ys) = join_with sep xs @ sep @ join_with sep ys"
proof (induction sep xs rule: join_with.induct)
  case (1 sep)
  then show ?case by simp
next
  case (2 sep x)
  then show ?case by (cases ys) simp_all
next
  case (3 sep x y ys)
  then show ?case by simp
qed

lemma join_with_empty:
  "\<forall>s \<in> set segs. s \<noteq> [] \<Longrightarrow> join_with sep segs = [] \<longleftrightarrow> segs = []"
  by (induction sep segs rule: join_with.induct) auto

lemma join_with_last_nonempty:
  "segs \<noteq> [] \<Longrightarrow> last segs \<noteq> [] \<Longrightarrow> join_with sep segs \<noteq> []"
  by (induction sep segs rule: join_with.induct) auto

lemma last_join_with:
  "segs \<noteq> [] \<Longrightarrow> last segs \<noteq> [] \<Longrightarrow> last (join_with sep segs) = last (last segs)"
proof (induction sep segs rule: join_with.induct)
  case (1 sep)
  then show ?case by simp
next
  case (2 sep x)
  then show ?case by simp
next
  case (3 sep x y ys)
  then have l: "last (y # ys) \<noteq> []" by simp
  have "join_with sep (y # ys) \<noteq> []"
    using l by (intro join_with_last_nonempty) simp_all
  with 3 l show ?case by simp
qed

lemma normalizeString_keeps:
  assumes "\<forall>s \<in> set res. plain s" and "\<forall>s \<in> set xs. CHR ''/'' \<notin> set s"
  shows "\<forall>s \<in> set (normalizeString False res xs). plain s"
  using assms
proof (induction xs arbitrary: res)
  case Nil
  then show ?case by simp
next
  case (Cons x xs)
  have b: "\<forall>s \<in> set (butlast res). plain s"
    using Cons.prems(1) by (auto dest: in_set_butlastD)
  have a: "x \<noteq> [] \<Longrightarrow> x \<noteq> ''.'' \<Longrightarrow> x \<noteq> ''..'' \<Longrightarrow> \<forall>s \<in> set (res @ [x]). plain s"
    using Cons.prems by (auto simp: plain_def)
  from Cons.prems(2) have r: "\<forall>s \<in> set xs. CHR ''/'' \<notin> set s" by simp
  show ?case
    using Cons.IH [OF Cons.prems(1) r] Cons.IH [OF b r] Cons.IH [OF a r]
    by simp
qed

lemma normalizeString_plain:
  "\<forall>s \<in> set xs. plain s \<Longrightarrow> normalizeString a res xs = res @ xs"
  by (induction xs arbitrary: res) (auto simp: plain_def)

lemma normalizeString_append:
  "normalizeString a res (xs @ ys) = normalizeString a (normalizeString a res xs) ys"
proof (induction xs arbitrary: res)
  case Nil
  show ?case by simp
next
  case (Cons x xs)
  show ?case
    using Cons.IH by (cases a) simp_all
qed

lemma absolute_segments_plain:
  "\<forall>s \<in> set (normalizeString False [] (split_on CHR ''/'' p)). plain s"
  by (rule normalizeString_keeps) (auto dest: split_on_free)

lemma plain_nonempty: "\<forall>s \<in> set segs. plain s \<Longrightarrow> \<forall>s \<in> set segs. s \<noteq> []"
  by (simp add: plain_def)

lemma plain_slash_free: "\<forall>s \<in> set segs. plain s \<Longrightarrow> \<forall>s \<in> set segs. CHR ''/'' \<notin> set s"
  by (simp add: plain_def)

lemma normalize_absolute:
  assumes "p \<noteq> []" and "hd p = CHR ''/''"
  shows "normalize p =
     (if normalizeString False [] (split_on CHR ''/'' p) = [] then ''/''
      else ''/'' @ join_with ''/'' (normalizeString False [] (split_on CHR ''/'' p))
             @ (if last p = CHR ''/'' then ''/'' else []))"
proof -
  have "join_with ''/'' (normalizeString False [] (split_on CHR ''/'' p)) = []
        \<longleftrightarrow> normalizeString False [] (split_on CHR ''/'' p) = []"
    by (rule join_with_empty) (rule plain_nonempty [OF absolute_segments_plain])
  with assms show ?thesis
    by (simp add: normalize_def Let_def)
qed

lemma strip_parents_slash: "strip_parents (CHR ''/'' # s) = CHR ''/'' # s"
proof (cases s)
  case Nil
  then show ?thesis by simp
next
  case (Cons b t)
  then show ?thesis by (cases t) simp_all
qed

lemma last_plain_join:
  assumes "segs \<noteq> []" and "\<forall>s \<in> set segs. plain s"
  shows "last (join_with ''/'' segs) \<noteq> CHR ''/''"
proof -
  from assms have l: "plain (last segs)" by simp
  then have "last (join_with ''/'' segs) = last (last segs)"
    using assms(1) by (intro last_join_with) (simp_all add: plain_def)
  moreover from l have "last (last segs) \<noteq> CHR ''/''"
    unfolding plain_def by (metis last_in_set)
  ultimately show ?thesis by simp
qed

lemma index_in_root: "path_join [''/'', ''index.html''] = ''/index.html''"
  by code_simp

lemma index_in_directory:
  assumes "segs \<noteq> []" and "\<forall>s \<in> set segs. plain s"
  shows "path_join [''/'' @ join_with ''/'' segs @ ''/'', ''index.html'']
         = ''/'' @ join_with ''/'' (segs @ [''index.html''])"
proof -
  let ?q = "CHR ''/'' # (join_with ''/'' segs @ CHR ''/'' # ''/index.html'')"
  have sp: "split_on CHR ''/'' ?q = [] # segs @ [[], ''index.html'']"
    using split_on_join [OF assms(1) plain_slash_free [OF assms(2)]]
      split_on_append [of "CHR ''/''" "[]"]
      split_on_append [of "CHR ''/''" "join_with ''/'' segs" "''/index.html''"]
    by simp
  have ns: "normalizeString False [] (split_on CHR ''/'' ?q) = segs @ [''index.html'']"
    unfolding sp
    using normalizeString_append [of False "[]" segs "[[], ''index.html'']"]
      normalizeString_plain [OF assms(2), of False "[]"]
    by simp
  have "normalize ?q = ''/'' @ join_with ''/'' (segs @ [''index.html''])"
    using normalize_absolute [of ?q] ns by simp
  then show ?thesis
    by (simp add: path_join_def)
qed

section \<open>Properties of the request dispatcher\<close>

text \<open>
  For a request target that starts with a slash, the path handed to \<open>serveFile\<close> is made
  of the segments that normalisation leaves, followed by \<open>index.html\<close> when the path is
  the root or ends with a slash.
\<close>

lemma resolve_absolute:
  assumes "hd (split_on CHR ''?'' u) = p" and "p \<noteq> []" and "hd p = CHR ''/''"
  shows "resolve u =
     join_with ''/''
       (if normalizeString False [] (split_on CHR ''/'' p) = [] \<or> last p = CHR ''/''
        then normalizeString False [] (split_on CHR ''/'' p) @ [''index.html'']
        else normalizeString False [] (split_on CHR ''/'' p))"
proof -
  let ?segs = "normalizeString False [] (split_on CHR ''/'' p)"
  note n = normalize_absolute [OF assms(2,3)]
  show ?thesis
  proof (cases "?segs = []")
    case True
    then have "normalize p = ''/''" using n by simp
    then show ?thesis
      using True assms(1) by (simp add: resolve_def Let_def index_in_root strip_slash_def)
  next
    case False
    have pl: "\<forall>s \<in> set ?segs. plain s" by (rule absolute_segments_plain)
    show ?thesis
    proof (cases "last p = CHR ''/''")
      case True
      then have np: "normalize p = ''/'' @ join_with ''/'' ?segs @ ''/''"
        using n False by simp
      have st: "strip_parents (normalize p) = ''/'' @ join_with ''/'' ?segs @ ''/''"
        unfolding np using strip_parents_slash by simp
      have e: "endsWith (''/'' @ join_with ''/'' ?segs @ ''/'') CHR ''/''"
        by (simp add: endsWith_def)
      show ?thesis
        using True False assms(1) e index_in_directory [OF False pl]
        by (simp add: resolve_def Let_def st strip_slash_def del: join_with.simps)
    next
      case nt: False
      then have np: "normalize p = ''/'' @ join_with ''/'' ?segs"
        using n False by simp
      have st: "strip_parents (normalize p) = ''/'' @ join_with ''/'' ?segs"
        unfolding np using strip_parents_slash by simp
      have ne: "join_with ''/'' ?segs \<noteq> []"
        using False join_with_empty [OF plain_nonempty [OF pl]] by simp
      have "last (join_with ''/'' ?segs) \<noteq> CHR ''/''"
        using False pl by (rule last_plain_join)
      then have e: "\<not> endsWith (''/'' @ join_with ''/'' ?segs) CHR ''/''"
        using ne by (simp add: endsWith_def)
      have d: "''/'' @ join_with ''/'' ?segs \<noteq> ''/''"
        using ne by simp
      show ?thesis
        using nt False assms(1) e d
        by (simp add: resolve_def Let_def st strip_slash_def del: join_with.simps)
    qed
  qed
qed

lemma joined_path:
  assumes "R \<noteq> []" and "\<forall>s \<in> set R. plain s" and "S \<noteq> []" and "\<forall>s \<in> set S. plain s"
  shows "path_join [''/'' @ join_with ''/'' R, join_with ''/'' S]
         = ''/'' @ join_with ''/'' R @ ''/'' @ join_with ''/'' S"
proof -
  let ?q = "CHR ''/'' # (join_with ''/'' R @ CHR ''/'' # join_with ''/'' S)"
  have neS: "join_with ''/'' S \<noteq> []"
    using assms(3) join_with_empty [OF plain_nonempty [OF assms(4)]] by simp
  have sp: "split_on CHR ''/'' ?q = [] # R @ S"
    using split_on_join [OF assms(1) plain_slash_free [OF assms(2)]]
      split_on_join [OF assms(3) plain_slash_free [OF assms(4)]]
      split_on_append [of "CHR ''/''" "[]"]
      split_on_append [of "CHR ''/''" "join_with ''/'' R" "join_with ''/'' S"]
    by simp
  have ns: "normalizeString False [] (split_on CHR ''/'' ?q) = R @ S"
    unfolding sp using normalizeString_plain [of "R @ S" False "[]"] assms(2,4)
    by auto
  have l: "last ?q \<noteq> CHR ''/''"
    using last_plain_join [OF assms(3,4)] neS by simp
  have "normalize ?q = ''/'' @ join_with ''/'' (R @ S)"
    using normalize_absolute [of ?q] ns l assms(1) by simp
  also have "join_with ''/'' (R @ S) = join_with ''/'' R @ ''/'' @ join_with ''/'' S"
    using assms(1,3) by (rule join_with_append)
  finally show ?thesis
    using neS by (simp add: path_join_def)
qed

lemma staticDir_form:
  assumes "dirname \<noteq> []" and "hd dirname = CHR ''/''"
  shows "staticDir (mk_config env dirname)
         = ''/'' @ join_with ''/'' (normalizeString False [] (split_on CHR ''/'' dirname) @ [''src''])"
proof -
  let ?q = "dirname @ CHR ''/'' # ''src''"
  have "normalizeString False [] (split_on CHR ''/'' ?q)
        = normalizeString False [] (split_on CHR ''/'' dirname) @ [''src'']"
    using split_on_append [of "CHR ''/''" dirname "''src''"]
      normalizeString_append [of False "[]" "split_on CHR ''/'' dirname" "[''src'']"]
    by simp
  moreover have "hd ?q = CHR ''/''" "?q \<noteq> []" "last ?q \<noteq> CHR ''/''"
    using assms by simp_all
  ultimately have "normalize ?q
        = ''/'' @ join_with ''/'' (normalizeString False [] (split_on CHR ''/'' dirname) @ [''src''])"
    using normalize_absolute [of ?q] by simp
  then show ?thesis
    using assms(1) by (simp add: mk_config_def path_join_def)
qed

text \<open>
  With server.js in an absolute directory, every request target that starts with a slash
  is read from below the static root: the full path is the root, a slash, and plain
  segments.
\<close>

lemma origin_form_stays_inside_root:
  assumes "u \<noteq> []" and "hd u = CHR ''/''" and "dirname \<noteq> []" and "hd dirname = CHR ''/''"
  shows "\<exists>segs. segs \<noteq> [] \<and> (\<forall>s \<in> set segs. plain s)
           \<and> resolve u = join_with ''/'' segs
           \<and> path_join [staticDir (mk_config env dirname), resolve u]
               = staticDir (mk_config env dirname) @ ''/'' @ resolve u"
proof -
  let ?p = "hd (split_on CHR ''?'' u)"
  let ?segs = "normalizeString False [] (split_on CHR ''/'' ?p)"
  let ?S = "if ?segs = [] \<or> last ?p = CHR ''/'' then ?segs @ [''index.html''] else ?segs"
  let ?R = "normalizeString False [] (split_on CHR ''/'' dirname) @ [''src'']"
  from assms(1,2) obtain r where u: "u = CHR ''/'' # r" by (cases u) auto
  have "?p = CHR ''/'' # takeWhile (\<lambda>x. x \<noteq> CHR ''?'') r"
    unfolding hd_split_on u by simp
  then have p: "?p \<noteq> []" "hd ?p = CHR ''/''"
    by simp_all
  have res: "resolve u = join_with ''/'' ?S"
    using resolve_absolute [OF refl p] by simp
  have S: "?S \<noteq> []" "\<forall>s \<in> set ?S. plain s"
    using absolute_segments_plain [of ?p] by (auto simp: plain_def)
  have R: "?R \<noteq> []" "\<forall>s \<in> set ?R. plain s"
    using absolute_segments_plain [of dirname] by (auto simp: plain_def)
  have "path_join [''/'' @ join_with ''/'' ?R, join_with ''/'' ?S]
         = ''/'' @ join_with ''/'' ?R @ ''/'' @ join_with ''/'' ?S"
    using R S by (rule joined_path)
  then have "path_join [staticDir (mk_config env dirname), resolve u]
               = staticDir (mk_config env dirname) @ ''/'' @ resolve u"
    by (simp only: res staticDir_form [OF assms(3,4)] append_assoc)
  with S res show ?thesis by blast
qed

text \<open>
  Claim C1. A request target in absolute form, \<open>http://h/../../..\<close>, does not start with
  a slash: \<open>path.normalize\<close> leaves \<open>..\<close>, the regular expression strips \<open>..\<close> only
  before a separator, and \<open>serveFile\<close> joins \<open>..\<close> to the static root
  \<open>/srv/app/src\<close>: the path it reads is \<open>/srv/app\<close>, outside the root.
\<close>

theorem traversal_reaches_parent_directory:
  "resolve ''http://h/../../..'' = ''..''
   \<and> staticDir sample_config = ''/srv/app/src''
   \<and> path_join [staticDir sample_config, resolve ''http://h/../../..''] = ''/srv/app''"
  by code_simp

text \<open>
  Claim C8. For a request whose path (the URL up to the query) starts with a slash and is
  \<open>/\<close> or ends with a slash, the listener hands \<open>serveFile\<close> the index document of
  that directory: the directory's segments after normalisation, none of them empty,
  \<open>.\<close> or \<open>..\<close>, followed by \<open>index.html\<close>.
\<close>

theorem directory_request_serves_index:
  assumes "hd (split_on CHR ''?'' (url req)) = p" and "hd p = CHR ''/''"
    and "p = ''/'' \<or> endsWith p CHR ''/''"
  shows "fst (handle_request cfg lookup st readFile req)
           = serveFile cfg lookup st readFile
               (join_with ''/'' (normalizeString False [] (split_on CHR ''/'' p) @ [''index.html'']))
   \<and> (\<forall>s \<in> set (normalizeString False [] (split_on CHR ''/'' p)).
          s \<noteq> [] \<and> s \<noteq> ''.'' \<and> s \<noteq> ''..'' \<and> CHR ''/'' \<notin> set s)"
proof -
  from assms(3) have ne: "p \<noteq> []" and l: "last p = CHR ''/''"
    by (auto simp: endsWith_def)
  have "resolve (url req)
        = join_with ''/'' (normalizeString False [] (split_on CHR ''/'' p) @ [''index.html''])"
    using resolve_absolute [OF assms(1) ne assms(2)] l by simp
  moreover have "\<forall>s \<in> set (normalizeString False [] (split_on CHR ''/'' p)). plain s"
    by (rule absolute_segments_plain)
  ultimately show ?thesis
    by (simp add: handle_request_def plain_def)
qed

theorem directory_request_serves_index_witness:
  "hd (split_on CHR ''?'' (url \<lparr> req_method = ''GET'', url = ''/docs/../blog/?page=2'' \<rparr>))
     = ''/docs/../blog/''
   \<and> hd ''/docs/../blog/'' = CHR ''/''
   \<and> endsWith ''/docs/../blog/'' CHR ''/''
   \<and> fst (handle_request sample_config no_lookup initial_state no_files
             \<lparr> req_method = ''GET'', url = ''/docs/../blog/?page=2'' \<rparr>)
       = serveFile sample_config no_lookup initial_state no_files ''blog/index.html''"
proof -
  have h1: "hd (split_on CHR ''?'' (url \<lparr> req_method = ''GET'', url = ''/docs/../blog/?page=2'' \<rparr>))
     = ''/docs/../blog/''"
    by code_simp
  have h3: "endsWith ''/docs/../blog/'' CHR ''/''"
    by (simp add: endsWith_def)
  have s: "join_with ''/'' (normalizeString False [] (split_on CHR ''/'' ''/docs/../blog/'')
             @ [''index.html'']) = ''blog/index.html''"
    by code_simp
  show ?thesis
    using h1 h3 s
      directory_request_serves_index [where req = "\<lparr> req_method = ''GET'', url = ''/docs/../blog/?page=2'' \<rparr>"
        and p = "''/docs/../blog/''" and cfg = sample_config and lookup = no_lookup
        and st = initial_state and readFile = no_files]
    by simp
qed

text \<open>
  A request target that ends with a slash but normalises to parent segments only is
  stripped to the empty path, which gets no index document.
\<close>

theorem parent_only_path_gets_no_index:
  "hd (split_on CHR ''?'' ''http://h/../../../'') = ''http://h/../../../''
   \<and> endsWith ''http://h/../../../'' CHR ''/''
   \<and> resolve ''http://h/../../../'' = []"
  by code_simp

section \<open>What the client receives\<close>

lemma resolve_sample_css: "resolve ''/site.css'' = ''site.css''"
  by code_simp

text \<open>
  What the server sends is not the same for every method: to \<open>GET /site.css\<close> it sends
  the three bytes of the file, chunked; to \<open>HEAD /site.css\<close> it sends no body and no
  \<open>Transfer-Encoding\<close>.
\<close>

theorem head_request_gets_no_body:
  "url \<lparr> req_method = ''GET'', url = ''/site.css'' \<rparr>
     = url \<lparr> req_method = ''HEAD'', url = ''/site.css'' \<rparr>
   \<and> wire_body (respond sample_config no_lookup initial_state sample_files
                   \<lparr> req_method = ''GET'', url = ''/site.css'' \<rparr>) = ascii_bytes ''p{}''
   \<and> wire_body (respond sample_config no_lookup initial_state sample_files
                   \<lparr> req_method = ''HEAD'', url = ''/site.css'' \<rparr>) = []
   \<and> ascii_bytes ''p{}'' \<noteq> []
   \<and> map_of (wire_headers (respond sample_config no_lookup initial_state sample_files
                   \<lparr> req_method = ''GET'', url = ''/site.css'' \<rparr>)) ''Transfer-Encoding''
       = Some (HStr ''chunked'')
   \<and> map_of (wire_headers (respond sample_config no_lookup initial_state sample_files
                   \<lparr> req_method = ''HEAD'', url = ''/site.css'' \<rparr>)) ''Transfer-Encoding''
       = None"
proof -
  have f: "sample_files (path_join [staticDir sample_config, ''site.css''])
             = Some (ascii_bytes ''p{}'')"
    by (simp add: sample_paths sample_files_def)
  have "serveFile sample_config no_lookup initial_state sample_files ''site.css'' =
     \<lparr> status = 200,
       headers = [(''Content-Type'', HStr (getMimeType no_lookup ''site.css'')),
                  (''Cache-Control'', HStr ''no-cache, no-store, must-revalidate''),
                  (''Pragma'', HStr ''no-cache''),
                  (''Expires'', HStr ''0'')],
       body = BodyBuffer (ascii_bytes ''p{}'') \<rparr>"
    using f sample_mime(4) by (intro serveFile_plain) simp_all
  then show ?thesis
    by (simp add: respond_def transmit_def hasBody_def handle_request_def resolve_sample_css
        ascii_bytes_def)
qed

end
